theory Spec2Isabelle
  imports Complex_Main "HOL-Library.Char_ord" "HOL-Library.List_Lexorder"
begin

section \<open>Data model (types.ts)\<close>

text \<open>
  A JavaScript number is \<open>NaN\<close>, an infinity, the negative zero \<open>-0\<close> or another finite
  value. Such a finite value is kept as the decimal numeral that \<open>Number::toString\<close>
  writes for it, the shortest one that reads back as the same double:
  \<open>Finite m d\<close> is \<open>m / 10^d\<close>, with \<open>d\<close> the number of fraction digits, so that \<open>m\<close> does
  not end in 0 unless \<open>d = 0\<close> (\<open>decimal_number\<close>). No property below does arithmetic
  on numbers, and the rounding of a numeral to a double is not modelled.

  An optional field (\<open>endTime?\<close>, \<open>isDwarfWorkout?\<close>, \<open>note?\<close>) is an \<open>option\<close>. Field
  names carry a prefix because \<open>id\<close> and \<open>date\<close> occur in several types. The \<open>note\<close>
  field is read by the components (\<open>session.note\<close>).
\<close>

datatype number = Finite int nat | NegZero | PosInfinity | NegInfinity | NaN

definition decimal_number :: "number \<Rightarrow> bool" where
  "decimal_number x = (case x of Finite m d \<Rightarrow> d = 0 \<or> m mod 10 \<noteq> 0 | _ \<Rightarrow> False)"

record Set_rec =
  reps :: number
  weight :: number

record ExerciseSession =
  es_id :: string
  es_date :: string
  es_sets :: "Set_rec list"
  es_note :: "string option"

record Exercise =
  ex_id :: string
  ex_name :: string
  ex_category :: string
  ex_sessions :: "ExerciseSession list"

record WorkoutSession =
  ws_id :: string
  ws_startTime :: string
  ws_endTime :: "string option"
  ws_exerciseIds :: "string list"
  ws_isDwarfWorkout :: "bool option"

record WorkoutData =
  exercises :: "Exercise list"
  workoutSessions :: "WorkoutSession list"

section \<open>Array and string helpers of the platform\<close>

text \<open>\<open>s.split('T')[0]\<close>: the text before the first \<open>T\<close> (all of it when there is none).\<close>

definition date_part :: "string \<Rightarrow> string" where
  "date_part s = takeWhile (\<lambda>c. c \<noteq> CHR ''T'') s"

text \<open>\<open>Array.prototype.findIndex\<close>; \<open>None\<close> stands for the result \<open>-1\<close>.\<close>

fun findIndex :: "('a \<Rightarrow> bool) \<Rightarrow> 'a list \<Rightarrow> nat option" where
  "findIndex P [] = None"
| "findIndex P (x # xs) = (if P x then Some 0 else map_option Suc (findIndex P xs))"

text \<open>\<open>xs.filter((_, i) => p(i))\<close>, the index counted from \<open>n\<close>.\<close>

fun filter_index :: "(nat \<Rightarrow> bool) \<Rightarrow> nat \<Rightarrow> 'a list \<Rightarrow> 'a list" where
  "filter_index p n [] = []"
| "filter_index p n (x # xs) =
     (if p n then x # filter_index p (Suc n) xs else filter_index p (Suc n) xs)"

text \<open>Decimal digits: the value of a digit is its position among the ten digits.\<close>

definition digit_val :: "char \<Rightarrow> int option" where
  "digit_val c = map_option int (findIndex (\<lambda>d. d = c) ''0123456789'')"

fun digits_val :: "int \<Rightarrow> string \<Rightarrow> int option" where
  "digits_val acc [] = Some acc"
| "digits_val acc (c # cs) =
     (case digit_val c of None \<Rightarrow> None | Some v \<Rightarrow> digits_val (acc * 10 + v) cs)"

definition digit_char :: "int \<Rightarrow> char" where
  "digit_char n = ''0123456789'' ! nat (n mod 10)"

definition is_digit :: "char \<Rightarrow> bool" where
  "is_digit c \<longleftrightarrow> digit_val c \<noteq> None"

section \<open>Mutations (hooks/useWorkoutData.ts)\<close>

text \<open>
  Every mutation is the updater passed to \<open>setData\<close>: a function from the previous
  snapshot to the next one. The fresh id of \<open>generateId()\<close> and the ISO text of the
  \<open>Date\<close> argument (\<open>targetDate.toISOString()\<close>) are parameters.
\<close>

definition addSet_exercise :: "Set_rec \<Rightarrow> string \<Rightarrow> string \<Rightarrow> Exercise \<Rightarrow> Exercise" where
  "addSet_exercise st dateStr newId exercise =
     (case findIndex (\<lambda>s. date_part (es_date s) = date_part dateStr) (ex_sessions exercise) of
        Some i \<Rightarrow>
          exercise\<lparr>ex_sessions := (ex_sessions exercise)
            [i := (ex_sessions exercise ! i)\<lparr>es_sets := es_sets (ex_sessions exercise ! i) @ [st]\<rparr>]\<rparr>
      | None \<Rightarrow>
          exercise\<lparr>ex_sessions := ex_sessions exercise @
            [\<lparr>es_id = newId, es_date = dateStr, es_sets = [st], es_note = None\<rparr>]\<rparr>)"

definition addSetToExercise ::
  "string \<Rightarrow> Set_rec \<Rightarrow> string \<Rightarrow> string \<Rightarrow> WorkoutData \<Rightarrow> WorkoutData" where
  "addSetToExercise exerciseId st dateStr newId prev =
     prev\<lparr>exercises := map (\<lambda>exercise.
        if ex_id exercise \<noteq> exerciseId then exercise
        else addSet_exercise st dateStr newId exercise) (exercises prev)\<rparr>"

definition deleteSet :: "string \<Rightarrow> string \<Rightarrow> int \<Rightarrow> WorkoutData \<Rightarrow> WorkoutData" where
  "deleteSet exerciseId sessionId setIndex prev =
     prev\<lparr>exercises := map (\<lambda>exercise.
        if ex_id exercise \<noteq> exerciseId then exercise
        else exercise\<lparr>ex_sessions :=
          filter (\<lambda>session. length (es_sets session) > 0)
            (map (\<lambda>session.
               if es_id session \<noteq> sessionId then session
               else session\<lparr>es_sets := filter_index (\<lambda>i. int i \<noteq> setIndex) 0 (es_sets session)\<rparr>)
              (ex_sessions exercise))\<rparr>) (exercises prev)\<rparr>"

definition deleteWorkoutSession :: "string \<Rightarrow> WorkoutData \<Rightarrow> WorkoutData" where
  "deleteWorkoutSession sessionId prev =
     (case find (\<lambda>s. ws_id s = sessionId) (workoutSessions prev) of
        None \<Rightarrow> prev
      | Some sessionToDelete \<Rightarrow>
          (let sessionDate = date_part (ws_startTime sessionToDelete);
               exerciseIdsInSession = ws_exerciseIds sessionToDelete;
               updatedExercises = map (\<lambda>exercise.
                 if ex_id exercise \<notin> set exerciseIdsInSession then exercise
                 else exercise\<lparr>ex_sessions :=
                   filter (\<lambda>es. date_part (es_date es) \<noteq> sessionDate) (ex_sessions exercise)\<rparr>)
                 (exercises prev)
           in prev\<lparr>exercises := updatedExercises,
                   workoutSessions := filter (\<lambda>s. ws_id s \<noteq> sessionId) (workoutSessions prev)\<rparr>))"

section \<open>Storage helpers (utils/storage.ts)\<close>

text \<open>
  JavaScript truthiness of an optional string (\<open>undefined\<close> and the empty string are
  falsy) and of an optional boolean.
\<close>

definition truthy_str :: "string option \<Rightarrow> bool" where
  "truthy_str v = (case v of None \<Rightarrow> False | Some s \<Rightarrow> s \<noteq> [])"

definition truthy_bool :: "bool option \<Rightarrow> bool" where
  "truthy_bool v = (case v of None \<Rightarrow> False | Some b \<Rightarrow> b)"

text \<open>
  A \<open>Set<string>\<close> is the list of its elements in insertion order; \<open>set_add\<close> is
  \<open>Set.prototype.add\<close> and \<open>Array.from\<close> is the list itself.
\<close>

definition set_add :: "'a \<Rightarrow> 'a list \<Rightarrow> 'a list" where
  "set_add x xs = (if x \<in> set xs then xs else xs @ [x])"

definition cleanOrphanedSessions :: "WorkoutData \<Rightarrow> WorkoutData" where
  "cleanOrphanedSessions data =
     (let validWorkoutDates =
            fold (\<lambda>session acc.
                    if truthy_str (ws_endTime session)
                    then set_add (date_part (ws_startTime session)) acc else acc)
                 (workoutSessions data) []
      in if length (workoutSessions data) = 0 then data
         else data\<lparr>exercises := map (\<lambda>exercise.
                exercise\<lparr>ex_sessions :=
                  filter (\<lambda>session. date_part (es_date session) \<in> set validWorkoutDates)
                    (ex_sessions exercise)\<rparr>) (exercises data)\<rparr>)"

section \<open>Statistics (utils/stats.ts)\<close>

text \<open>
  \<open>Array.prototype.sort()\<close> without a comparator orders strings by their code units;
  that is the lexicographic order on \<open>char list\<close>. The elements are distinct here, so
  the sorted array is the same for every sorting algorithm.
\<close>

definition getUniqueWorkoutDates :: "WorkoutData \<Rightarrow> string list" where
  "getUniqueWorkoutDates data =
     (let dates1 =
            fold (\<lambda>exercise acc.
                    fold (\<lambda>session acc'. set_add (date_part (es_date session)) acc')
                         (ex_sessions exercise) acc)
                 (exercises data) [];
          dates2 =
            fold (\<lambda>session acc.
                    if truthy_bool (ws_isDwarfWorkout session) \<and> truthy_str (ws_endTime session)
                    then set_add (date_part (ws_startTime session)) acc else acc)
                 (workoutSessions data) dates1
      in sort dates2)"

definition getTotalWorkouts :: "WorkoutData \<Rightarrow> nat" where
  "getTotalWorkouts data = length (getUniqueWorkoutDates data)"

definition getLastWorkoutDate :: "WorkoutData \<Rightarrow> string option" where
  "getLastWorkoutDate data =
     (let dates = getUniqueWorkoutDates data
      in if length dates = 0 then None else Some (dates ! (length dates - 1)))"

subsection \<open>Week keys and the streak\<close>

text \<open>
  The \<open>Date\<close> object belongs to the JavaScript runtime, so its methods are parameters.
  A number that may be \<open>NaN\<close> is an \<open>int option\<close>; \<open>toISOString\<close> raises a
  \<open>RangeError\<close> on an invalid date, which is the result \<open>None\<close>.
\<close>

record 'd DateApi =
  Date_new :: "string \<Rightarrow> 'd"
  setHours0 :: "'d \<Rightarrow> 'd"
  getDay :: "'d \<Rightarrow> int option"
  getDate :: "'d \<Rightarrow> int option"
  setDate :: "'d \<Rightarrow> int option \<Rightarrow> 'd"
  toISOString :: "'d \<Rightarrow> string option"

definition num_add :: "int option \<Rightarrow> int option \<Rightarrow> int option" where
  "num_add a b = (case a of None \<Rightarrow> None | Some x \<Rightarrow> map_option (\<lambda>y. x + y) b)"

definition getWeekStart :: "'d DateApi \<Rightarrow> 'd \<Rightarrow> 'd" where
  "getWeekStart api date =
     (let d = setHours0 api date;
          day = getDay api d;
          diff = (if day = Some 0 then Some (- 6) else num_add (Some 1) (map_option uminus day))
      in setDate api d (num_add (getDate api d) diff))"

definition getWeekKey :: "'d DateApi \<Rightarrow> 'd \<Rightarrow> string option" where
  "getWeekKey api date = map_option date_part (toISOString api (getWeekStart api date))"

fun weeksWithWorkouts :: "'d DateApi \<Rightarrow> string list \<Rightarrow> string list \<Rightarrow> string list option" where
  "weeksWithWorkouts api [] acc = Some acc"
| "weeksWithWorkouts api (dateStr # rest) acc =
     (case getWeekKey api (Date_new api dateStr) of
        None \<Rightarrow> None
      | Some k \<Rightarrow> weeksWithWorkouts api rest (set_add k acc))"

function streak_loop :: "'d DateApi \<Rightarrow> string list \<Rightarrow> nat \<Rightarrow> nat \<Rightarrow> 'd \<Rightarrow> nat option" where
  "streak_loop api weeks i streak checkDate =
     (if i < 52 then
        (case getWeekKey api checkDate of
           None \<Rightarrow> None
         | Some weekKey \<Rightarrow>
             if weekKey \<in> set weeks then
               streak_loop api weeks (i + 1) (streak + 1)
                 (setDate api checkDate (num_add (getDate api checkDate) (Some (- 7))))
             else if i = 0 then
               streak_loop api weeks (i + 1) streak
                 (setDate api checkDate (num_add (getDate api checkDate) (Some (- 7))))
             else Some streak)
      else Some streak)"
  by pat_completeness auto
termination
  by (relation "measure (\<lambda>(api, weeks, i, streak, checkDate). 52 - i)") auto

declare streak_loop.simps [simp del]

text \<open>\<open>today\<close> is the value of \<open>new Date()\<close>; \<open>None\<close> is the \<open>RangeError\<close>.\<close>

definition getCurrentStreak :: "'d DateApi \<Rightarrow> 'd \<Rightarrow> WorkoutData \<Rightarrow> nat option" where
  "getCurrentStreak api today data =
     (let dates = getUniqueWorkoutDates data
      in if length dates = 0 then Some 0
         else (case weeksWithWorkouts api dates [] of
                 None \<Rightarrow> None
               | Some weeks \<Rightarrow> streak_loop api weeks 0 0 today))"

text \<open>\<open>week_back api today i\<close> is \<open>checkDate\<close> at the start of iteration \<open>i\<close>.\<close>

fun week_back :: "'d DateApi \<Rightarrow> 'd \<Rightarrow> nat \<Rightarrow> 'd" where
  "week_back api today 0 = today"
| "week_back api today (Suc i) =
     setDate api (week_back api today i)
       (num_add (getDate api (week_back api today i)) (Some (- 7)))"

text \<open>
  The week \<open>i\<close> weeks back has a workout: its key is the week key of some workout date.
\<close>

definition week_has_workout :: "'d DateApi \<Rightarrow> 'd \<Rightarrow> WorkoutData \<Rightarrow> nat \<Rightarrow> bool" where
  "week_has_workout api today data i \<longleftrightarrow>
     getWeekKey api (week_back api today i) \<in>
       (\<lambda>s. getWeekKey api (Date_new api s)) ` set (getUniqueWorkoutDates data)"

subsection \<open>Sessions of an exercise\<close>

text \<open>
  The comparator \<open>(a, b) => time(b.date) - time(a.date)\<close>. \<open>timeOf s\<close> is
  \<open>new Date(s).getTime()\<close>, \<open>None\<close> for \<open>NaN\<close>; a comparison that yields \<open>NaN\<close> counts
  as 0.
\<close>

definition time_compare ::
  "(string \<Rightarrow> int option) \<Rightarrow> ExerciseSession \<Rightarrow> ExerciseSession \<Rightarrow> int" where
  "time_compare timeOf a b =
     (case (timeOf (es_date b), timeOf (es_date a)) of
        (Some tb, Some ta) \<Rightarrow> tb - ta
      | _ \<Rightarrow> 0)"

text \<open>
  \<open>Array.prototype.sort\<close> with a comparator, as a stable insertion sort: each element
  in turn moves left past the elements that compare greater than it. The first
  argument of \<open>insert_sorted\<close> after the element is the part already sorted, last
  element first. With every date valid the result is the stable sort descending in
  time, whatever the engine; an element with an unparseable date is not moved, and
  nothing moves past it (the standard leaves that order to the engine).
\<close>

fun insert_sorted :: "('a \<Rightarrow> 'a \<Rightarrow> int) \<Rightarrow> 'a \<Rightarrow> 'a list \<Rightarrow> 'a list" where
  "insert_sorted cmp x [] = [x]"
| "insert_sorted cmp x (y # ys) =
     (if cmp y x > 0 then y # insert_sorted cmp x ys else x # y # ys)"

definition array_sort :: "('a \<Rightarrow> 'a \<Rightarrow> int) \<Rightarrow> 'a list \<Rightarrow> 'a list" where
  "array_sort cmp xs = rev (foldl (\<lambda>acc x. insert_sorted cmp x acc) [] xs)"

definition sort_desc ::
  "(string \<Rightarrow> int option) \<Rightarrow> ExerciseSession list \<Rightarrow> ExerciseSession list" where
  "sort_desc timeOf xs = array_sort (time_compare timeOf) xs"

text \<open>
  \<open>Array.prototype.sort\<close> sorts the array it is called on, in place. Each function
  returns its result with the exercise object as the call leaves it.
\<close>

definition getExerciseLastSession ::
  "(string \<Rightarrow> int option) \<Rightarrow> Exercise \<Rightarrow> ExerciseSession option \<times> Exercise" where
  "getExerciseLastSession timeOf exercise =
     (if length (ex_sessions exercise) = 0 then (None, exercise)
      else (let sorted = sort_desc timeOf (ex_sessions exercise)
            in (case sorted of [] \<Rightarrow> None | s # _ \<Rightarrow> Some s,
                exercise\<lparr>ex_sessions := sorted\<rparr>)))"

definition getExercisePreviousSession ::
  "(string \<Rightarrow> int option) \<Rightarrow> string \<Rightarrow> Exercise \<Rightarrow> ExerciseSession option \<times> Exercise" where
  "getExercisePreviousSession timeOf todayDateStr exercise =
     (let sorted = sort_desc timeOf
            (filter (\<lambda>s. date_part (es_date s) \<noteq> todayDateStr) (ex_sessions exercise))
      in (case sorted of [] \<Rightarrow> None | s # _ \<Rightarrow> Some s, exercise))"

definition getExercisePreviousSessions ::
  "(string \<Rightarrow> int option) \<Rightarrow> string \<Rightarrow> Exercise \<Rightarrow> nat \<Rightarrow> ExerciseSession list \<times> Exercise" where
  "getExercisePreviousSessions timeOf todayDateStr exercise count =
     (take count (sort_desc timeOf
        (filter (\<lambda>s. date_part (es_date s) \<noteq> todayDateStr) (ex_sessions exercise))),
      exercise)"

subsection \<open>Order of an exercise within its muscle group\<close>

definition getMuscleGroupOrder ::
  "string \<Rightarrow> string \<Rightarrow> string \<Rightarrow> WorkoutSession list \<Rightarrow> Exercise list \<Rightarrow> nat option" where
  "getMuscleGroupOrder exerciseId category sessionDate wsessions allExercises =
     (let datePart = date_part sessionDate;
          workoutSession =
            find (\<lambda>ws. date_part (ws_startTime ws) = datePart \<and> exerciseId \<in> set (ws_exerciseIds ws))
              wsessions;
          primary =
            (case workoutSession of
               None \<Rightarrow> None
             | Some ws \<Rightarrow>
                 (let sameCategory =
                        filter (\<lambda>i. case find (\<lambda>e. ex_id e = i) allExercises of
                                      None \<Rightarrow> False
                                    | Some ex \<Rightarrow> ex_category ex = category)
                          (ws_exerciseIds ws)
                  in map_option Suc (findIndex (\<lambda>i. i = exerciseId) sameCategory)))
      in case primary of
           Some order \<Rightarrow> Some order
         | None \<Rightarrow>
             (let sameCategoryExercises =
                    filter (\<lambda>ex. ex_category ex = category \<and>
                              list_ex (\<lambda>s. date_part (es_date s) = datePart \<and> length (es_sets s) > 0)
                                (ex_sessions ex))
                      allExercises
              in map_option Suc (findIndex (\<lambda>ex. ex_id ex = exerciseId) sameCategoryExercises)))"

section \<open>Import and export (utils/storage.ts)\<close>

text \<open>
  The values that \<open>JSON.parse\<close> returns. An object is the list of its properties in
  insertion order, with distinct names.
\<close>

datatype json =
    JNull
  | JBool bool
  | JNum number
  | JStr string
  | JArr "json list"
  | JObj "(string \<times> json) list"

datatype js_error = TypeError | RangeError | SyntaxError

text \<open>Truthiness of a value, and of a property that may be \<open>undefined\<close> (\<open>None\<close>).\<close>

fun js_truthy :: "json \<Rightarrow> bool" where
  "js_truthy JNull = False"
| "js_truthy (JBool b) = b"
| "js_truthy (JNum n) =
     (case n of Finite m d \<Rightarrow> m \<noteq> 0 | PosInfinity \<Rightarrow> True | NegInfinity \<Rightarrow> True
      | _ \<Rightarrow> False)"
| "js_truthy (JStr s) = (s \<noteq> [])"
| "js_truthy (JArr xs) = True"
| "js_truthy (JObj kvs) = True"

definition js_truthy_opt :: "json option \<Rightarrow> bool" where
  "js_truthy_opt v = (case v of None \<Rightarrow> False | Some x \<Rightarrow> js_truthy x)"

text \<open>
  Reading one of the data properties (\<open>exercises\<close>, \<open>sessions\<close>, \<open>date\<close>, ...) of a
  value: \<open>null\<close> raises a \<open>TypeError\<close>; an object yields its property or \<open>undefined\<close>;
  a boolean, number, string or array has no property of these names.
\<close>

fun js_get :: "json \<Rightarrow> string \<Rightarrow> js_error + json option" where
  "js_get JNull k = Inl TypeError"
| "js_get (JObj kvs) k = Inr (map_of kvs k)"
| "js_get v k = Inr None"

text \<open>\<open>Array.isArray\<close> of a property that may be \<open>undefined\<close>.\<close>

fun isArray :: "json option \<Rightarrow> bool" where
  "isArray (Some (JArr xs)) = True"
| "isArray v = False"

text \<open>
  \<open>importData\<close>, with \<open>JSON.parse\<close> of the runtime as a parameter (\<open>None\<close>: it raised
  a \<open>SyntaxError\<close>, which the \<open>try\<close> catches). The result \<open>None\<close> is \<open>null\<close>. The test
  \<open>data && ...\<close> keeps \<open>data.exercises\<close> from being read on \<open>null\<close>.
\<close>

definition importData :: "(string \<Rightarrow> json option) \<Rightarrow> string \<Rightarrow> json option" where
  "importData parse text =
     (case parse text of
        None \<Rightarrow> None
      | Some data \<Rightarrow>
          if js_truthy data \<and>
             (case js_get data ''exercises'' of Inl e \<Rightarrow> False | Inr v \<Rightarrow> isArray v)
          then Some data else None)"

subsection \<open>A snapshot as a JSON value\<close>

text \<open>
  The value that \<open>JSON.stringify\<close> walks for a snapshot: the field names verbatim, an
  absent optional field left out.
\<close>

definition opt_field :: "string \<Rightarrow> ('a \<Rightarrow> json) \<Rightarrow> 'a option \<Rightarrow> (string \<times> json) list" where
  "opt_field k f v = (case v of None \<Rightarrow> [] | Some x \<Rightarrow> [(k, f x)])"

definition json_of_Set :: "Set_rec \<Rightarrow> json" where
  "json_of_Set s = JObj [(''reps'', JNum (reps s)), (''weight'', JNum (weight s))]"

definition json_of_ExerciseSession :: "ExerciseSession \<Rightarrow> json" where
  "json_of_ExerciseSession s =
     JObj ([(''id'', JStr (es_id s)), (''date'', JStr (es_date s)),
            (''sets'', JArr (map json_of_Set (es_sets s)))] @ opt_field ''note'' JStr (es_note s))"

definition json_of_Exercise :: "Exercise \<Rightarrow> json" where
  "json_of_Exercise e =
     JObj [(''id'', JStr (ex_id e)), (''name'', JStr (ex_name e)),
           (''category'', JStr (ex_category e)),
           (''sessions'', JArr (map json_of_ExerciseSession (ex_sessions e)))]"

definition json_of_WorkoutSession :: "WorkoutSession \<Rightarrow> json" where
  "json_of_WorkoutSession w =
     JObj ([(''id'', JStr (ws_id w)), (''startTime'', JStr (ws_startTime w)),
            (''exerciseIds'', JArr (map JStr (ws_exerciseIds w)))]
           @ opt_field ''endTime'' JStr (ws_endTime w)
           @ opt_field ''isDwarfWorkout'' JBool (ws_isDwarfWorkout w))"

definition json_of_WorkoutData :: "WorkoutData \<Rightarrow> json" where
  "json_of_WorkoutData d =
     JObj [(''exercises'', JArr (map json_of_Exercise (exercises d))),
           (''workoutSessions'', JArr (map json_of_WorkoutSession (workoutSessions d)))]"

text \<open>
  \<open>exportData\<close> hands the text \<open>JSON.stringify(data, null, 2)\<close> to the clipboard, or to
  a download; the result here is that text, with the serializer as a parameter.
\<close>

definition exportData :: "(json \<Rightarrow> string) \<Rightarrow> WorkoutData \<Rightarrow> string" where
  "exportData stringify2 data = stringify2 (json_of_WorkoutData data)"

text \<open>
  The cast \<open>data as WorkoutData\<close> is not checked. \<open>as_WorkoutData\<close> reads a value as a
  snapshot when it has the declared shape, and is \<open>None\<close> otherwise.
\<close>

definition as_str :: "json option \<Rightarrow> string option" where
  "as_str v = (case v of Some (JStr s) \<Rightarrow> Some s | _ \<Rightarrow> None)"

definition as_num :: "json option \<Rightarrow> number option" where
  "as_num v = (case v of Some (JNum n) \<Rightarrow> Some n | _ \<Rightarrow> None)"

definition as_list :: "(json \<Rightarrow> 'a option) \<Rightarrow> json option \<Rightarrow> 'a list option" where
  "as_list f v = (case v of Some (JArr xs) \<Rightarrow> those (map f xs) | _ \<Rightarrow> None)"

text \<open>An optional field: absent, or of the declared type.\<close>

definition as_opt_str :: "json option \<Rightarrow> string option option" where
  "as_opt_str v = (case v of None \<Rightarrow> Some None | Some (JStr s) \<Rightarrow> Some (Some s) | _ \<Rightarrow> None)"

definition as_opt_bool :: "json option \<Rightarrow> bool option option" where
  "as_opt_bool v = (case v of None \<Rightarrow> Some None | Some (JBool b) \<Rightarrow> Some (Some b) | _ \<Rightarrow> None)"

definition as_Set :: "json \<Rightarrow> Set_rec option" where
  "as_Set v =
     (case v of
        JObj kvs \<Rightarrow>
          (case (as_num (map_of kvs ''reps''), as_num (map_of kvs ''weight'')) of
             (Some r, Some w) \<Rightarrow> Some \<lparr>reps = r, weight = w\<rparr>
           | _ \<Rightarrow> None)
      | _ \<Rightarrow> None)"

definition as_ExerciseSession :: "json \<Rightarrow> ExerciseSession option" where
  "as_ExerciseSession v =
     (case v of
        JObj kvs \<Rightarrow>
          (case (as_str (map_of kvs ''id''), as_str (map_of kvs ''date''),
                 as_list as_Set (map_of kvs ''sets''), as_opt_str (map_of kvs ''note'')) of
             (Some i, Some d, Some ss, Some n) \<Rightarrow>
               Some \<lparr>es_id = i, es_date = d, es_sets = ss, es_note = n\<rparr>
           | _ \<Rightarrow> None)
      | _ \<Rightarrow> None)"

definition as_Exercise :: "json \<Rightarrow> Exercise option" where
  "as_Exercise v =
     (case v of
        JObj kvs \<Rightarrow>
          (case (as_str (map_of kvs ''id''), as_str (map_of kvs ''name''),
                 as_str (map_of kvs ''category''),
                 as_list as_ExerciseSession (map_of kvs ''sessions'')) of
             (Some i, Some n, Some c, Some ss) \<Rightarrow>
               Some \<lparr>ex_id = i, ex_name = n, ex_category = c, ex_sessions = ss\<rparr>
           | _ \<Rightarrow> None)
      | _ \<Rightarrow> None)"

definition as_WorkoutSession :: "json \<Rightarrow> WorkoutSession option" where
  "as_WorkoutSession v =
     (case v of
        JObj kvs \<Rightarrow>
          (case (as_str (map_of kvs ''id''), as_str (map_of kvs ''startTime''),
                 as_opt_str (map_of kvs ''endTime''),
                 as_list (\<lambda>x. as_str (Some x)) (map_of kvs ''exerciseIds''),
                 as_opt_bool (map_of kvs ''isDwarfWorkout'')) of
             (Some i, Some s, Some e, Some xs, Some dw) \<Rightarrow>
               Some \<lparr>ws_id = i, ws_startTime = s, ws_endTime = e, ws_exerciseIds = xs,
                     ws_isDwarfWorkout = dw\<rparr>
           | _ \<Rightarrow> None)
      | _ \<Rightarrow> None)"

definition as_WorkoutData :: "json \<Rightarrow> WorkoutData option" where
  "as_WorkoutData v =
     (case v of
        JObj kvs \<Rightarrow>
          (case (as_list as_Exercise (map_of kvs ''exercises''),
                 as_list as_WorkoutSession (map_of kvs ''workoutSessions'')) of
             (Some es, Some ws) \<Rightarrow> Some \<lparr>exercises = es, workoutSessions = ws\<rparr>
           | _ \<Rightarrow> None)
      | _ \<Rightarrow> None)"

subsection \<open>The statistics on an unchecked value\<close>

text \<open>
  What \<open>getUniqueWorkoutDates\<close> and \<open>getActiveWorkoutSession\<close> do when the argument is
  any parsed value: \<open>for ... of\<close> needs an array or a string (whose elements are its
  characters) and raises a \<open>TypeError\<close> on anything else, \<open>undefined\<close> included;
  \<open>x.split('T')\<close> needs a string; \<open>.find\<close> needs an array, and \<open>|| null\<close> turns a
  falsy element that was found into \<open>null\<close> (\<open>None\<close>).
\<close>

definition js_iter :: "json option \<Rightarrow> js_error + json list" where
  "js_iter v =
     (case v of
        Some (JArr xs) \<Rightarrow> Inr xs
      | Some (JStr s) \<Rightarrow> Inr (map (\<lambda>c. JStr [c]) s)
      | _ \<Rightarrow> Inl TypeError)"

definition js_date_part :: "json option \<Rightarrow> js_error + string" where
  "js_date_part v = (case v of Some (JStr s) \<Rightarrow> Inr (date_part s) | _ \<Rightarrow> Inl TypeError)"

fun session_dates_js :: "json list \<Rightarrow> string list \<Rightarrow> js_error + string list" where
  "session_dates_js [] acc = Inr acc"
| "session_dates_js (session # rest) acc =
     (case js_get session ''date'' of
        Inl e \<Rightarrow> Inl e
      | Inr dt \<Rightarrow>
          (case js_date_part dt of
             Inl e \<Rightarrow> Inl e
           | Inr p \<Rightarrow> session_dates_js rest (set_add p acc)))"

fun exercise_dates_js :: "json list \<Rightarrow> string list \<Rightarrow> js_error + string list" where
  "exercise_dates_js [] acc = Inr acc"
| "exercise_dates_js (exercise # rest) acc =
     (case js_get exercise ''sessions'' of
        Inl e \<Rightarrow> Inl e
      | Inr ss \<Rightarrow>
          (case js_iter ss of
             Inl e \<Rightarrow> Inl e
           | Inr sl \<Rightarrow>
               (case session_dates_js sl acc of
                  Inl e \<Rightarrow> Inl e
                | Inr acc' \<Rightarrow> exercise_dates_js rest acc')))"

fun dwarf_dates_js :: "json list \<Rightarrow> string list \<Rightarrow> js_error + string list" where
  "dwarf_dates_js [] acc = Inr acc"
| "dwarf_dates_js (session # rest) acc =
     (case js_get session ''isDwarfWorkout'' of
        Inl e \<Rightarrow> Inl e
      | Inr dw \<Rightarrow>
          if js_truthy_opt dw then
            (case js_get session ''endTime'' of
               Inl e \<Rightarrow> Inl e
             | Inr et \<Rightarrow>
                 if js_truthy_opt et then
                   (case js_get session ''startTime'' of
                      Inl e \<Rightarrow> Inl e
                    | Inr st \<Rightarrow>
                        (case js_date_part st of
                           Inl e \<Rightarrow> Inl e
                         | Inr p \<Rightarrow> dwarf_dates_js rest (set_add p acc)))
                 else dwarf_dates_js rest acc)
          else dwarf_dates_js rest acc)"

definition getUniqueWorkoutDates_js :: "json \<Rightarrow> js_error + string list" where
  "getUniqueWorkoutDates_js data =
     (case js_get data ''exercises'' of
        Inl e \<Rightarrow> Inl e
      | Inr es \<Rightarrow>
          (case js_iter es of
             Inl e \<Rightarrow> Inl e
           | Inr el \<Rightarrow>
               (case exercise_dates_js el [] of
                  Inl e \<Rightarrow> Inl e
                | Inr dates1 \<Rightarrow>
                    (case js_get data ''workoutSessions'' of
                       Inl e \<Rightarrow> Inl e
                     | Inr ws \<Rightarrow>
                         (case js_iter ws of
                            Inl e \<Rightarrow> Inl e
                          | Inr wl \<Rightarrow>
                              (case dwarf_dates_js wl dates1 of
                                 Inl e \<Rightarrow> Inl e
                               | Inr dates2 \<Rightarrow> Inr (sort dates2)))))))"

definition getActiveWorkoutSession :: "WorkoutData \<Rightarrow> WorkoutSession option" where
  "getActiveWorkoutSession data = find (\<lambda>s. \<not> truthy_str (ws_endTime s)) (workoutSessions data)"

fun find_active_js :: "json list \<Rightarrow> js_error + json option" where
  "find_active_js [] = Inr None"
| "find_active_js (s # rest) =
     (case js_get s ''endTime'' of
        Inl e \<Rightarrow> Inl e
      | Inr et \<Rightarrow>
          if \<not> js_truthy_opt et then (if js_truthy s then Inr (Some s) else Inr None)
          else find_active_js rest)"

definition getActiveWorkoutSession_js :: "json \<Rightarrow> js_error + json option" where
  "getActiveWorkoutSession_js data =
     (case js_get data ''workoutSessions'' of
        Inl e \<Rightarrow> Inl e
      | Inr (Some (JArr xs)) \<Rightarrow> find_active_js xs
      | Inr _ \<Rightarrow> Inl TypeError)"

section \<open>The JSON text format (\<open>JSON.stringify\<close> and \<open>JSON.parse\<close> of the runtime)\<close>

text \<open>
  The two functions belong to the JavaScript runtime. They are written out here after
  ECMA-262 (\<open>JSON.stringify(value, null, 2)\<close>, \<open>JSON.parse(text)\<close>), on texts and
  strings of 8-bit characters. A finite number is written by \<open>Number::toString\<close>; a
  numeral that is read is kept as it stands, not rounded to a double.
\<close>

abbreviation dquote :: char where "dquote \<equiv> CHR 0x22"
abbreviation backslash :: char where "backslash \<equiv> CHR 0x5C"
abbreviation newline :: char where "newline \<equiv> CHR 0x0A"

subsection \<open>Writing\<close>

definition hex_char :: "nat \<Rightarrow> char" where
  "hex_char n = ''0123456789abcdef'' ! n"

text \<open>\<open>QuoteJSONString\<close>: the escapes of one character, and a string in quotes.\<close>

definition quote_char :: "char \<Rightarrow> string" where
  "quote_char c =
     (if c = dquote then [backslash, dquote]
      else if c = backslash then [backslash, backslash]
      else if c = CHR 0x08 then [backslash, CHR ''b'']
      else if c = CHR 0x09 then [backslash, CHR ''t'']
      else if c = CHR 0x0A then [backslash, CHR ''n'']
      else if c = CHR 0x0C then [backslash, CHR ''f'']
      else if c = CHR 0x0D then [backslash, CHR ''r'']
      else if of_char c < (32 :: nat) then
        [backslash, CHR ''u'', CHR ''0'', CHR ''0'',
         hex_char (of_char c div 16), hex_char (of_char c mod 16)]
      else [c])"

definition json_quote :: "string \<Rightarrow> string" where
  "json_quote s = dquote # concat (map quote_char s) @ [dquote]"

text \<open>The decimal digits of a number that is not negative, without leading zeros.\<close>

function dec_digits :: "int \<Rightarrow> string" where
  "dec_digits n =
     (if n < 10 then [digit_char n]
      else dec_digits (n div 10) @ [digit_char (n mod 10)])"
  by pat_completeness auto
termination
  by (relation "measure nat") auto

declare dec_digits.simps [simp del]

text \<open>A finite number with its trailing fraction zeros dropped.\<close>

fun num_norm :: "int \<Rightarrow> nat \<Rightarrow> int \<times> nat" where
  "num_norm m 0 = (m, 0)"
| "num_norm m (Suc d) = (if m mod 10 = 0 then num_norm (m div 10) d else (m, Suc d))"

definition strip_zeros :: "string \<Rightarrow> string" where
  "strip_zeros ds = rev (dropWhile (\<lambda>c. c = CHR ''0'') (rev ds))"

text \<open>
  \<open>Number::toString\<close> for a finite number. With \<open>k\<close> significant digits and the
  decimal point after \<open>n\<close> of them: the digits followed by zeros when
  \<open>k \<le> n \<le> 21\<close>, the digits with a point inside when \<open>0 < n \<le> 21\<close>, \<open>0.\<close>, zeros and
  the digits when \<open>-6 < n \<le> 0\<close>, and the exponent form otherwise.
\<close>

definition exp_text :: "string \<Rightarrow> int \<Rightarrow> string" where
  "exp_text ds n =
     (case ds of
        [] \<Rightarrow> []
      | c # cs \<Rightarrow>
          (if cs = [] then [c] else c # CHR ''.'' # cs) @ ''e''
          @ (if n - 1 < 0 then ''-'' else ''+'') @ dec_digits \<bar>n - 1\<bar>)"

definition unsigned_text :: "int \<Rightarrow> nat \<Rightarrow> string" where
  "unsigned_text a d =
     (let ds = dec_digits a;
          n = int (length ds) - int d
      in if a = 0 then ''0''
         else if d = 0 then (if n \<le> 21 then ds else exp_text (strip_zeros ds) n)
         else if 0 < n \<and> n \<le> 21 then take (nat n) ds @ ''.'' @ drop (nat n) ds
         else if - 6 < n \<and> n \<le> 0 then ''0.'' @ replicate (nat (- n)) (CHR ''0'') @ ds
         else exp_text ds n)"

definition finite_text :: "int \<Rightarrow> nat \<Rightarrow> string" where
  "finite_text m d = (if m < 0 then ''-'' else '''') @ unsigned_text \<bar>m\<bar> d"

text \<open>
  A number as \<open>JSON.stringify\<close> writes it: \<open>null\<close> when it is not finite, and \<open>0\<close> for
  the negative zero.
\<close>

definition number_json :: "number \<Rightarrow> string" where
  "number_json x =
     (case x of
        Finite m d \<Rightarrow> (case num_norm m d of (m', d') \<Rightarrow> finite_text m' d')
      | NegZero \<Rightarrow> ''0''
      | _ \<Rightarrow> ''null'')"

text \<open>
  \<open>SerializeJSONProperty\<close> with a gap of two spaces, at nesting depth \<open>i\<close>.
  \<open>elems_text\<close> and \<open>props_text\<close> write what follows the first element of an array
  and the first property of an object.
\<close>

definition indent :: "nat \<Rightarrow> string" where
  "indent i = replicate (2 * i) (CHR '' '')"

fun json_text :: "nat \<Rightarrow> json \<Rightarrow> string"
  and elems_text :: "nat \<Rightarrow> json list \<Rightarrow> string"
  and props_text :: "nat \<Rightarrow> (string \<times> json) list \<Rightarrow> string" where
  "json_text i JNull = ''null''"
| "json_text i (JBool b) = (if b then ''true'' else ''false'')"
| "json_text i (JNum x) = number_json x"
| "json_text i (JStr s) = json_quote s"
| "json_text i (JArr []) = ''[]''"
| "json_text i (JArr (e # es)) =
     ''['' @ [newline] @ indent (Suc i) @ json_text (Suc i) e @ elems_text i es"
| "json_text i (JObj []) = ''{}''"
| "json_text i (JObj ((k, v) # kvs)) =
     ''{'' @ [newline] @ indent (Suc i) @ json_quote k @ '': '' @ json_text (Suc i) v
     @ props_text i kvs"
| "elems_text i [] = [newline] @ indent i @ '']''"
| "elems_text i (e # es) =
     '','' @ [newline] @ indent (Suc i) @ json_text (Suc i) e @ elems_text i es"
| "props_text i [] = [newline] @ indent i @ ''}''"
| "props_text i ((k, v) # kvs) =
     '','' @ [newline] @ indent (Suc i) @ json_quote k @ '': '' @ json_text (Suc i) v
     @ props_text i kvs"

definition JSON_stringify2 :: "json \<Rightarrow> string" where
  "JSON_stringify2 v = json_text 0 v"

subsection \<open>Reading\<close>

definition is_ws :: "char \<Rightarrow> bool" where
  "is_ws c \<longleftrightarrow> c = CHR '' '' \<or> c = CHR 0x09 \<or> c = CHR 0x0A \<or> c = CHR 0x0D"

definition skip_ws :: "string \<Rightarrow> string" where
  "skip_ws s = dropWhile is_ws s"

definition hex_val :: "char \<Rightarrow> nat option" where
  "hex_val c =
     (case findIndex (\<lambda>d. d = c) ''0123456789abcdef'' of
        Some n \<Rightarrow> Some n
      | None \<Rightarrow> map_option (\<lambda>n. n + 10) (findIndex (\<lambda>d. d = c) ''ABCDEF''))"

definition unescape :: "char \<Rightarrow> char option" where
  "unescape e =
     (if e = dquote \<or> e = backslash \<or> e = CHR ''/'' then Some e
      else if e = CHR ''b'' then Some (CHR 0x08)
      else if e = CHR ''t'' then Some (CHR 0x09)
      else if e = CHR ''n'' then Some (CHR 0x0A)
      else if e = CHR ''f'' then Some (CHR 0x0C)
      else if e = CHR ''r'' then Some (CHR 0x0D)
      else None)"

text \<open>
  The characters of a string after its opening quote, up to the closing quote. A
  control character must be escaped; an escape \<open>\uXXXX\<close> above \<open>00FF\<close> has no
  8-bit character and is refused here.
\<close>

fun string_body :: "string \<Rightarrow> (string \<times> string) option" where
  "string_body [] = None"
| "string_body (c # cs) =
     (if c = dquote then Some ([], cs)
      else if c = backslash then
        (case cs of
           [] \<Rightarrow> None
         | e # r \<Rightarrow>
             if e = CHR ''u'' then
               (case r of
                  h1 # h2 # h3 # h4 # r' \<Rightarrow>
                    (case (hex_val h1, hex_val h2, hex_val h3, hex_val h4) of
                       (Some a, Some b, Some x, Some y) \<Rightarrow>
                         if ((a * 16 + b) * 16 + x) * 16 + y < 256 then
                           map_option (\<lambda>(s, t). (char_of (((a * 16 + b) * 16 + x) * 16 + y) # s, t))
                             (string_body r')
                         else None
                     | _ \<Rightarrow> None)
                | _ \<Rightarrow> None)
             else
               (case unescape e of
                  None \<Rightarrow> None
                | Some x \<Rightarrow> map_option (\<lambda>(s, t). (x # s, t)) (string_body r)))
      else if of_char c < (32 :: nat) then None
      else map_option (\<lambda>(s, t). (c # s, t)) (string_body cs))"

text \<open>The value of a text of digits.\<close>

fun dec_val :: "int \<Rightarrow> string \<Rightarrow> int" where
  "dec_val acc [] = acc"
| "dec_val acc (c # cs) =
     dec_val (acc * 10 + (case digit_val c of None \<Rightarrow> 0 | Some v \<Rightarrow> v)) cs"

text \<open>
  A numeral \<open>int frac? exp?\<close> without its sign: the value of its digits and the
  power of ten that scales it. The integer part has no leading zero.
\<close>

definition read_fraction :: "string \<Rightarrow> (string \<times> string) option" where
  "read_fraction s =
     (case s of
        [] \<Rightarrow> Some ([], s)
      | c # r \<Rightarrow>
          if c = CHR ''.'' then
            (if takeWhile is_digit r = [] then None
             else Some (takeWhile is_digit r, dropWhile is_digit r))
          else Some ([], s))"

definition read_exponent :: "string \<Rightarrow> (int \<times> string) option" where
  "read_exponent s =
     (case s of
        [] \<Rightarrow> Some (0, s)
      | c # r \<Rightarrow>
          if c = CHR ''e'' \<or> c = CHR ''E'' then
            (let neg = (case r of [] \<Rightarrow> False | x # _ \<Rightarrow> x = CHR ''-'');
                 r1 = (case r of [] \<Rightarrow> r | x # r' \<Rightarrow> if x = CHR ''+'' \<or> x = CHR ''-'' then r' else r)
             in if takeWhile is_digit r1 = [] then None
                else Some ((if neg then - 1 else 1) * dec_val 0 (takeWhile is_digit r1),
                           dropWhile is_digit r1))
          else Some (0, s))"

definition read_unsigned :: "string \<Rightarrow> ((int \<times> int) \<times> string) option" where
  "read_unsigned s =
     (let ip = takeWhile is_digit s
      in if ip = [] \<or> (1 < length ip \<and> hd ip = CHR ''0'') then None
         else
           (case read_fraction (dropWhile is_digit s) of
              None \<Rightarrow> None
            | Some (fp, s1) \<Rightarrow>
                (case read_exponent s1 of
                   None \<Rightarrow> None
                 | Some (x, s2) \<Rightarrow> Some ((dec_val 0 (ip @ fp), x - int (length fp)), s2))))"

text \<open>The number \<open>m * 10^ex\<close>; a numeral of value zero with a minus sign is \<open>-0\<close>.\<close>

definition make_number :: "int \<Rightarrow> int \<Rightarrow> number" where
  "make_number m ex =
     (if 0 \<le> ex then Finite (m * 10 ^ nat ex) 0
      else (case num_norm m (nat (- ex)) of (m', d') \<Rightarrow> Finite m' d'))"

definition read_number :: "string \<Rightarrow> (number \<times> string) option" where
  "read_number s =
     (case s of
        [] \<Rightarrow> None
      | c # r \<Rightarrow>
          if c = CHR ''-'' then
            map_option (\<lambda>((a, ex), t). (if a = 0 then NegZero else make_number (- a) ex, t))
              (read_unsigned r)
          else map_option (\<lambda>((a, ex), t). (make_number a ex, t)) (read_unsigned s))"

text \<open>
  A property read later replaces the value of an earlier property of the same name,
  in the earlier one's place. The reordering of integer-like property names is not
  modelled.
\<close>

definition obj_cons :: "string \<Rightarrow> json \<Rightarrow> (string \<times> json) list \<Rightarrow> (string \<times> json) list" where
  "obj_cons k v kvs =
     (case map_of kvs k of
        None \<Rightarrow> (k, v) # kvs
      | Some v' \<Rightarrow> (k, v') # filter (\<lambda>kv. fst kv \<noteq> k) kvs)"

text \<open>
  The value at the head of a text (after white space), with the rest of the text.
  \<open>read_elems\<close> reads what follows an element of an array and \<open>read_props\<close> reads the
  properties of an object from a property name on. Each call is made on a shorter
  text with one unit of fuel less, so as much fuel as the text is long is enough.
\<close>

fun read_value :: "nat \<Rightarrow> string \<Rightarrow> (json \<times> string) option"
  and read_elems :: "nat \<Rightarrow> string \<Rightarrow> (json list \<times> string) option"
  and read_props :: "nat \<Rightarrow> string \<Rightarrow> ((string \<times> json) list \<times> string) option" where
  "read_value 0 s = None"
| "read_value (Suc f) s =
     (case s of
        [] \<Rightarrow> None
      | c # r \<Rightarrow>
          if c = CHR ''['' then
            (case skip_ws r of
               [] \<Rightarrow> None
             | c' # r' \<Rightarrow>
                 if c' = CHR '']'' then Some (JArr [], r')
                 else
                   (case read_value f (c' # r') of
                      None \<Rightarrow> None
                    | Some (v, r2) \<Rightarrow>
                        map_option (\<lambda>(vs, t). (JArr (v # vs), t)) (read_elems f r2)))
          else if c = CHR ''{'' then
            (case skip_ws r of
               [] \<Rightarrow> None
             | c' # r' \<Rightarrow>
                 if c' = CHR ''}'' then Some (JObj [], r')
                 else map_option (\<lambda>(kvs, t). (JObj kvs, t)) (read_props f (c' # r')))
          else if c = dquote then map_option (\<lambda>(x, t). (JStr x, t)) (string_body r)
          else if c = CHR ''-'' \<or> is_digit c then
            map_option (\<lambda>(x, t). (JNum x, t)) (read_number s)
          else if take 4 s = ''null'' then Some (JNull, drop 4 s)
          else if take 4 s = ''true'' then Some (JBool True, drop 4 s)
          else if take 5 s = ''false'' then Some (JBool False, drop 5 s)
          else None)"
| "read_elems 0 s = None"
| "read_elems (Suc f) s =
     (case skip_ws s of
        [] \<Rightarrow> None
      | c # r \<Rightarrow>
          if c = CHR '']'' then Some ([], r)
          else if c = CHR '','' then
            (case read_value f (skip_ws r) of
               None \<Rightarrow> None
             | Some (v, r2) \<Rightarrow> map_option (\<lambda>(vs, t). (v # vs, t)) (read_elems f r2))
          else None)"
| "read_props 0 s = None"
| "read_props (Suc f) s =
     (case s of
        [] \<Rightarrow> None
      | c # r \<Rightarrow>
          if c \<noteq> dquote then None
          else
            (case string_body r of
               None \<Rightarrow> None
             | Some (k, r1) \<Rightarrow>
                 (case skip_ws r1 of
                    [] \<Rightarrow> None
                  | c1 # r2 \<Rightarrow>
                      if c1 \<noteq> CHR '':'' then None
                      else
                        (case read_value f (skip_ws r2) of
                           None \<Rightarrow> None
                         | Some (v, r3) \<Rightarrow>
                             (case skip_ws r3 of
                                [] \<Rightarrow> None
                              | c3 # r4 \<Rightarrow>
                                  if c3 = CHR ''}'' then Some ([(k, v)], r4)
                                  else if c3 = CHR '','' then
                                    map_option (\<lambda>(kvs, t). (obj_cons k v kvs, t))
                                      (read_props f (skip_ws r4))
                                  else None)))))"

text \<open>\<open>JSON.parse\<close>; \<open>None\<close> is the \<open>SyntaxError\<close>.\<close>

definition JSON_parse :: "string \<Rightarrow> json option" where
  "JSON_parse s =
     (case read_value (length s) (skip_ws s) of
        None \<Rightarrow> None
      | Some (v, r) \<Rightarrow> if skip_ws r = [] then Some v else None)"

text \<open>
  The values that a text carries back: numbers that are finite and not \<open>-0\<close>, and
  objects whose property names are distinct.
\<close>

fun json_ok :: "json \<Rightarrow> bool"
  and json_ok_list :: "json list \<Rightarrow> bool"
  and json_ok_props :: "(string \<times> json) list \<Rightarrow> bool" where
  "json_ok JNull = True"
| "json_ok (JBool b) = True"
| "json_ok (JNum x) = decimal_number x"
| "json_ok (JStr s) = True"
| "json_ok (JArr es) = json_ok_list es"
| "json_ok (JObj kvs) = (distinct (map fst kvs) \<and> json_ok_props kvs)"
| "json_ok_list [] = True"
| "json_ok_list (e # es) = (json_ok e \<and> json_ok_list es)"
| "json_ok_props [] = True"
| "json_ok_props ((k, v) # kvs) = (json_ok v \<and> json_ok_props kvs)"

subsection \<open>Notions for reasoning about the two functions\<close>

text \<open>A text of digits, and a text before which a numeral ends.\<close>

definition digits :: "string \<Rightarrow> bool" where
  "digits ds \<longleftrightarrow> (\<forall>c \<in> set ds. is_digit c)"

definition num_end :: "string \<Rightarrow> bool" where
  "num_end s \<longleftrightarrow>
     (case s of [] \<Rightarrow> True
      | c # r \<Rightarrow> \<not> is_digit c \<and> c \<noteq> CHR ''.'' \<and> c \<noteq> CHR ''e'' \<and> c \<noteq> CHR ''E'')"

text \<open>A character that is neither white space nor the end of an array, object or element.\<close>

definition value_start :: "char \<Rightarrow> bool" where
  "value_start c \<longleftrightarrow> \<not> is_ws c \<and> c \<noteq> CHR '']'' \<and> c \<noteq> CHR ''}'' \<and> c \<noteq> CHR '',''"

text \<open>What \<open>read_props\<close> does once the value of the property \<open>k\<close> is read.\<close>

definition read_more_props ::
  "nat \<Rightarrow> string \<Rightarrow> json \<Rightarrow> string \<Rightarrow> ((string \<times> json) list \<times> string) option" where
  "read_more_props f k v s =
     (case skip_ws s of
        [] \<Rightarrow> None
      | c # r \<Rightarrow>
          if c = CHR ''}'' then Some ([(k, v)], r)
          else if c = CHR '','' then
            map_option (\<lambda>(kvs, t). (obj_cons k v kvs, t)) (read_props f (skip_ws r))
          else None)"

text \<open>A snapshot all of whose numbers the text carries back.\<close>

definition decimal_Set :: "Set_rec \<Rightarrow> bool" where
  "decimal_Set s \<longleftrightarrow> decimal_number (reps s) \<and> decimal_number (weight s)"

definition decimal_numbers :: "WorkoutData \<Rightarrow> bool" where
  "decimal_numbers d \<longleftrightarrow>
     list_all (\<lambda>e. list_all (\<lambda>s. list_all decimal_Set (es_sets s)) (ex_sessions e)) (exercises d)"

section \<open>A \<open>Date\<close> implementation in the UTC time zone\<close>

text \<open>
  An instance of the \<open>Date\<close> parameters, to run the statistics on concrete snapshots:
  a date is its time value in milliseconds since the epoch, \<open>None\<close> for an invalid date,
  and local time is UTC. The parser reads the date-time string format of ECMAScript,
  a date alone or a date, \<open>T\<close>, a time and an optional offset; any other text, which
  an engine may read by rules of its own, is an invalid date here. The calendar
  arithmetic is the proleptic Gregorian calendar by eras of 400 years; time values are
  not clipped to the range of \<open>Date\<close>.
\<close>

definition days_from_civil :: "int \<Rightarrow> int \<Rightarrow> int \<Rightarrow> int" where
  "days_from_civil y m d =
     (let y' = (if m \<le> 2 then y - 1 else y);
          era = y' div 400;
          yoe = y' - era * 400;
          doy = (153 * (m + (if m > 2 then - 3 else 9)) + 2) div 5 + d - 1;
          doe = yoe * 365 + yoe div 4 - yoe div 100 + doy
      in era * 146097 + doe - 719468)"

definition civil_from_days :: "int \<Rightarrow> int \<times> int \<times> int" where
  "civil_from_days z =
     (let z' = z + 719468;
          era = z' div 146097;
          doe = z' - era * 146097;
          yoe = (doe - doe div 1460 + doe div 36524 - doe div 146096) div 365;
          doy = doe - (365 * yoe + yoe div 4 - yoe div 100);
          mp = (5 * doy + 2) div 153;
          d = doy - (153 * mp + 2) div 5 + 1;
          m = (if mp < 10 then mp + 3 else mp - 9);
          y = yoe + era * 400
      in (if m \<le> 2 then y + 1 else y, m, d))"

definition pad2 :: "int \<Rightarrow> string" where
  "pad2 n = [digit_char (n div 10), digit_char n]"

definition pad3 :: "int \<Rightarrow> string" where
  "pad3 n = [digit_char (n div 100), digit_char (n div 10), digit_char n]"

definition pad4 :: "int \<Rightarrow> string" where
  "pad4 n = [digit_char (n div 1000), digit_char (n div 100), digit_char (n div 10), digit_char n]"

text \<open>Reading \<open>n\<close> decimal digits, or one given character, at the head of a text.\<close>

definition read_digits :: "nat \<Rightarrow> string \<Rightarrow> (int \<times> string) option" where
  "read_digits n s =
     (if n \<le> length s then map_option (\<lambda>v. (v, drop n s)) (digits_val 0 (take n s)) else None)"

definition read_char :: "char \<Rightarrow> string \<Rightarrow> string option" where
  "read_char c s = (case s of [] \<Rightarrow> None | x # r \<Rightarrow> if x = c then Some r else None)"

text \<open>The year: four digits, or a sign and six digits (but not \<open>-000000\<close>).\<close>

definition iso_year :: "string \<Rightarrow> (int \<times> string) option" where
  "iso_year s =
     (case s of
        [] \<Rightarrow> None
      | c # r \<Rightarrow>
          if c = CHR ''+'' then read_digits 6 r
          else if c = CHR ''-'' then
            (case read_digits 6 r of
               None \<Rightarrow> None
             | Some (y, r') \<Rightarrow> if y = 0 then None else Some (- y, r'))
          else read_digits 4 s)"

text \<open>The date \<open>YYYY\<close>, \<open>YYYY-MM\<close> or \<open>YYYY-MM-DD\<close>, as the day number since the epoch.\<close>

definition iso_date :: "string \<Rightarrow> (int \<times> string) option" where
  "iso_date s =
     (case iso_year s of
        None \<Rightarrow> None
      | Some (y, r1) \<Rightarrow>
          (case read_char (CHR ''-'') r1 of
             None \<Rightarrow> Some (days_from_civil y 1 1, r1)
           | Some r2 \<Rightarrow>
               (case read_digits 2 r2 of
                  None \<Rightarrow> None
                | Some (m, r3) \<Rightarrow>
                    if m < 1 \<or> 12 < m then None
                    else
                      (case read_char (CHR ''-'') r3 of
                         None \<Rightarrow> Some (days_from_civil y m 1, r3)
                       | Some r4 \<Rightarrow>
                           (case read_digits 2 r4 of
                              None \<Rightarrow> None
                            | Some (d, r5) \<Rightarrow>
                                if d < 1 \<or> 31 < d then None
                                else Some (days_from_civil y m d, r5))))))"

text \<open>
  The fraction of a second after the point: at least one digit, of which the first three
  count as milliseconds.
\<close>

definition iso_fraction :: "string \<Rightarrow> (int \<times> string) option" where
  "iso_fraction s =
     (let ds = takeWhile (\<lambda>c. digit_val c \<noteq> None) s
      in if ds = [] then None
         else map_option (\<lambda>v. (v, drop (length ds) s)) (digits_val 0 (take 3 (ds @ ''00''))))"

text \<open>
  The time \<open>HH:mm\<close>, \<open>HH:mm:ss\<close> or \<open>HH:mm:ss.sss\<close>, in milliseconds; \<open>24:00:00\<close> is
  the end of the day.
\<close>

definition iso_time :: "string \<Rightarrow> (int \<times> string) option" where
  "iso_time s =
     (case read_digits 2 s of
        None \<Rightarrow> None
      | Some (h, r1) \<Rightarrow>
          (case read_char (CHR '':'') r1 of
             None \<Rightarrow> None
           | Some r2 \<Rightarrow>
               (case read_digits 2 r2 of
                  None \<Rightarrow> None
                | Some (mi, r3) \<Rightarrow>
                    (let sec_ms =
                           (case read_char (CHR '':'') r3 of
                              None \<Rightarrow> Some (0, 0, r3)
                            | Some r4 \<Rightarrow>
                                (case read_digits 2 r4 of
                                   None \<Rightarrow> None
                                 | Some (sec, r5) \<Rightarrow>
                                     (case read_char (CHR ''.'') r5 of
                                        None \<Rightarrow> Some (sec, 0, r5)
                                      | Some r6 \<Rightarrow>
                                          (case iso_fraction r6 of
                                             None \<Rightarrow> None
                                           | Some (ms, r7) \<Rightarrow> Some (sec, ms, r7)))))
                     in (case sec_ms of
                           None \<Rightarrow> None
                         | Some (sec, ms, r) \<Rightarrow>
                             if 24 < h \<or> 59 < mi \<or> 59 < sec
                                \<or> (h = 24 \<and> (mi \<noteq> 0 \<or> sec \<noteq> 0 \<or> ms \<noteq> 0))
                             then None
                             else Some (((h * 60 + mi) * 60 + sec) * 1000 + ms, r))))))"

text \<open>
  The offset that ends a date with a time: \<open>Z\<close>, \<open>+HH:mm\<close> or \<open>-HH:mm\<close>, in
  milliseconds; without one the time is local time, which is UTC here.
\<close>

definition iso_offset :: "string \<Rightarrow> int option" where
  "iso_offset s =
     (case s of
        [] \<Rightarrow> Some 0
      | c # r \<Rightarrow>
          if c = CHR ''Z'' then (if r = [] then Some 0 else None)
          else if c = CHR ''+'' \<or> c = CHR ''-'' then
            (case read_digits 2 r of
               None \<Rightarrow> None
             | Some (h, r1) \<Rightarrow>
                 (case read_char (CHR '':'') r1 of
                    None \<Rightarrow> None
                  | Some r2 \<Rightarrow>
                      (case read_digits 2 r2 of
                         None \<Rightarrow> None
                       | Some (mi, r3) \<Rightarrow>
                           if r3 \<noteq> [] \<or> 23 < h \<or> 59 < mi then None
                           else Some ((if c = CHR ''-'' then - 1 else 1) * (h * 60 + mi) * 60000))))
          else None)"

definition utc_Date_new :: "string \<Rightarrow> int option" where
  "utc_Date_new s =
     (case iso_date s of
        None \<Rightarrow> None
      | Some (days, r) \<Rightarrow>
          if r = [] then Some (days * 86400000)
          else
            (case read_char (CHR ''T'') r of
               None \<Rightarrow> None
             | Some r1 \<Rightarrow>
                 (case iso_time r1 of
                    None \<Rightarrow> None
                  | Some (t, r2) \<Rightarrow>
                      (case iso_offset r2 of
                         None \<Rightarrow> None
                       | Some off \<Rightarrow> Some (days * 86400000 + t - off)))))"

definition utc_toISOString :: "int option \<Rightarrow> string option" where
  "utc_toISOString t =
     (case t of
        None \<Rightarrow> None
      | Some ms \<Rightarrow>
          (case civil_from_days (ms div 86400000) of
             (y, m, d) \<Rightarrow>
               (let r = ms mod 86400000
                in if 0 \<le> y \<and> y \<le> 9999 then
                     Some (pad4 y @ ''-'' @ pad2 m @ ''-'' @ pad2 d @ ''T'' @
                           pad2 (r div 3600000) @ '':'' @ pad2 (r div 60000 mod 60) @ '':'' @
                           pad2 (r div 1000 mod 60) @ ''.'' @ pad3 (r mod 1000) @ ''Z'')
                   else
                     Some ((if y < 0 then ''-'' else ''+'') @ pad2 (\<bar>y\<bar> div 10000) @ pad4 \<bar>y\<bar> @
                           ''-'' @ pad2 m @ ''-'' @ pad2 d @ ''T'' @
                           pad2 (r div 3600000) @ '':'' @ pad2 (r div 60000 mod 60) @ '':'' @
                           pad2 (r div 1000 mod 60) @ ''.'' @ pad3 (r mod 1000) @ ''Z''))))"

definition utc_setDate :: "int option \<Rightarrow> int option \<Rightarrow> int option" where
  "utc_setDate t n =
     (case (t, n) of
        (Some ms, Some k) \<Rightarrow>
          (case civil_from_days (ms div 86400000) of
             (y, m, d) \<Rightarrow> Some ((days_from_civil y m 1 + (k - 1)) * 86400000 + ms mod 86400000))
      | _ \<Rightarrow> None)"

definition utc_api :: "int option DateApi" where
  "utc_api = \<lparr>
     Date_new = utc_Date_new,
     setHours0 = map_option (\<lambda>ms. ms div 86400000 * 86400000),
     getDay = map_option (\<lambda>ms. (ms div 86400000 + 4) mod 7),
     getDate = map_option (\<lambda>ms. snd (snd (civil_from_days (ms div 86400000)))),
     setDate = utc_setDate,
     toISOString = utc_toISOString\<rparr>"

text \<open>\<open>new Date(s).getTime()\<close>, with \<open>None\<close> for \<open>NaN\<close>.\<close>

definition utc_time :: "string \<Rightarrow> int option" where
  "utc_time s = utc_Date_new s"

section \<open>Example snapshots\<close>

definition demo_exA :: Exercise where
  "demo_exA = \<lparr>ex_id = ''A'', ex_name = ''Bench Press'', ex_category = ''Push'',
     ex_sessions =
       [\<lparr>es_id = ''s1'', es_date = ''2024-03-04T17:05:00.000Z'',
          es_sets = [\<lparr>reps = Finite 8 0, weight = Finite 60 0\<rparr>], es_note = None\<rparr>,
        \<lparr>es_id = ''s2'', es_date = ''2024-03-06T17:05:00.000Z'',
          es_sets = [\<lparr>reps = Finite 8 0, weight = Finite 60 0\<rparr>, \<lparr>reps = Finite 6 0, weight = Finite 65 0\<rparr>],
          es_note = None\<rparr>]\<rparr>"

definition demo_exB :: Exercise where
  "demo_exB = \<lparr>ex_id = ''B'', ex_name = ''Overhead Press'', ex_category = ''Push'',
     ex_sessions =
       [\<lparr>es_id = ''s3'', es_date = ''2024-03-04T17:20:00.000Z'',
          es_sets = [\<lparr>reps = Finite 10 0, weight = Finite 30 0\<rparr>], es_note = None\<rparr>]\<rparr>"

definition demo_exC :: Exercise where
  "demo_exC = \<lparr>ex_id = ''C'', ex_name = ''Barbell Row'', ex_category = ''Pull'',
     ex_sessions =
       [\<lparr>es_id = ''s4'', es_date = ''2024-03-04T08:00:00.000Z'',
          es_sets = [\<lparr>reps = Finite 10 0, weight = Finite 50 0\<rparr>], es_note = Some ''easy''\<rparr>]\<rparr>"

definition demo_w1 :: WorkoutSession where
  "demo_w1 = \<lparr>ws_id = ''w1'', ws_startTime = ''2024-03-04T17:00:00.000Z'',
     ws_endTime = Some ''2024-03-04T18:00:00.000Z'', ws_exerciseIds = [''A'', ''B''],
     ws_isDwarfWorkout = None\<rparr>"

definition demo_w2 :: WorkoutSession where
  "demo_w2 = \<lparr>ws_id = ''w2'', ws_startTime = ''2024-03-06T17:00:00.000Z'',
     ws_endTime = Some ''2024-03-06T18:00:00.000Z'', ws_exerciseIds = [''A'', ''B'', ''C''],
     ws_isDwarfWorkout = None\<rparr>"

definition demo_data :: WorkoutData where
  "demo_data = \<lparr>exercises = [demo_exA, demo_exB, demo_exC],
     workoutSessions = [demo_w1, demo_w2]\<rparr>"

text \<open>An exercise whose two sessions carry the same id.\<close>

definition dup_data :: WorkoutData where
  "dup_data = \<lparr>exercises =
     [\<lparr>ex_id = ''A'', ex_name = ''Bench Press'', ex_category = ''Push'',
       ex_sessions =
         [\<lparr>es_id = ''s1'', es_date = ''2024-03-04T17:05:00.000Z'',
            es_sets = [\<lparr>reps = Finite 8 0, weight = Finite 60 0\<rparr>], es_note = None\<rparr>,
          \<lparr>es_id = ''s1'', es_date = ''2024-03-06T17:05:00.000Z'',
            es_sets = [\<lparr>reps = Finite 6 0, weight = Finite 65 0\<rparr>], es_note = None\<rparr>]\<rparr>],
     workoutSessions = []\<rparr>"

text \<open>The example snapshot with a completed Dwarf workout on a third day.\<close>

definition demo_w3 :: WorkoutSession where
  "demo_w3 = \<lparr>ws_id = ''w3'', ws_startTime = ''2024-03-05T07:00:00.000Z'',
     ws_endTime = Some ''2024-03-05T07:30:00.000Z'', ws_exerciseIds = [],
     ws_isDwarfWorkout = Some True\<rparr>"

definition dwarf_data :: WorkoutData where
  "dwarf_data = demo_data\<lparr>workoutSessions := [demo_w1, demo_w2, demo_w3]\<rparr>"

text \<open>The example snapshot while the second workout is still active.\<close>

definition demo_w4 :: WorkoutSession where
  "demo_w4 = \<lparr>ws_id = ''w4'', ws_startTime = ''2024-03-06T17:00:00.000Z'',
     ws_endTime = None, ws_exerciseIds = [''A''], ws_isDwarfWorkout = None\<rparr>"

definition orphan_data :: WorkoutData where
  "orphan_data = demo_data\<lparr>workoutSessions := [demo_w1, demo_w4]\<rparr>"

definition bootstrap_like :: WorkoutData where
  "bootstrap_like = demo_data\<lparr>workoutSessions := []\<rparr>"

text \<open>The example snapshot with an earlier workout on the day of the second one.\<close>

definition demo_w5 :: WorkoutSession where
  "demo_w5 = \<lparr>ws_id = ''w5'', ws_startTime = ''2024-03-06T07:00:00.000Z'',
     ws_endTime = Some ''2024-03-06T07:40:00.000Z'', ws_exerciseIds = [''B''],
     ws_isDwarfWorkout = None\<rparr>"

definition twice_data :: WorkoutData where
  "twice_data = demo_data\<lparr>workoutSessions := [demo_w1, demo_w5, demo_w2]\<rparr>"

text \<open>
  Snapshots for the streak, seen on Wednesday 2024-03-20: workouts in this week and
  the two weeks before, and workouts in last week and three weeks ago only.
\<close>

definition streak_ex :: "string list \<Rightarrow> Exercise" where
  "streak_ex ds = \<lparr>ex_id = ''A'', ex_name = ''Bench Press'', ex_category = ''Push'',
     ex_sessions = map (\<lambda>d. \<lparr>es_id = d, es_date = d,
        es_sets = [\<lparr>reps = Finite 8 0, weight = Finite 60 0\<rparr>], es_note = None\<rparr>) ds\<rparr>"

definition streak_data3 :: WorkoutData where
  "streak_data3 = \<lparr>exercises =
     [streak_ex [''2024-03-06T17:00:00.000Z'', ''2024-03-13T17:00:00.000Z'',
                 ''2024-03-19T17:00:00.000Z'']],
     workoutSessions = []\<rparr>"

definition streak_data1 :: WorkoutData where
  "streak_data1 = \<lparr>exercises =
     [streak_ex [''2024-02-28T17:00:00.000Z'', ''2024-03-12T17:00:00.000Z'']],
     workoutSessions = []\<rparr>"

definition demo_today :: "int option" where
  "demo_today = utc_Date_new ''2024-03-20T09:30:00.000Z''"

text \<open>
  A small snapshot with the text \<open>JSON.stringify(data, null, 2)\<close> gives for it, and
  a text with an \<open>exercises\<close> field only.
\<close>

definition small_data :: WorkoutData where
  "small_data = \<lparr>exercises = [demo_exB], workoutSessions = [demo_w1]\<rparr>"

fun join_lines :: "string list \<Rightarrow> string" where
  "join_lines [] = []"
| "join_lines [l] = l"
| "join_lines (l # ls) = l @ [CHR 0x0A] @ join_lines ls"

definition small_data_text :: string where
  \<open>small_data_text = join_lines
     [''{'',
      ''  "exercises": ['',
      ''    {'',
      ''      "id": "B",'',
      ''      "name": "Overhead Press",'',
      ''      "category": "Push",'',
      ''      "sessions": ['',
      ''        {'',
      ''          "id": "s3",'',
      ''          "date": "2024-03-04T17:20:00.000Z",'',
      ''          "sets": ['',
      ''            {'',
      ''              "reps": 10,'',
      ''              "weight": 30'',
      ''            }'',
      ''          ]'',
      ''        }'',
      ''      ]'',
      ''    }'',
      ''  ],'',
      ''  "workoutSessions": ['',
      ''    {'',
      ''      "id": "w1",'',
      ''      "startTime": "2024-03-04T17:00:00.000Z",'',
      ''      "exerciseIds": ['',
      ''        "A",'',
      ''        "B"'',
      ''      ],'',
      ''      "endTime": "2024-03-04T18:00:00.000Z"'',
      ''    }'',
      ''  ]'',
      ''}'']\<close>

definition exercises_only_text :: string where
  \<open>exercises_only_text = ''{"exercises": []}''\<close>

text \<open>
  A snapshot with a set of infinite weight (\<open>Infinity\<close> passes the test
  \<open>!isNaN(parsed) && parsed >= 0\<close> of the set logger), and the value that is read from
  its exported text.
\<close>

definition infinity_data :: WorkoutData where
  "infinity_data =
     \<lparr>exercises =
        [\<lparr>ex_id = ''B'', ex_name = ''Overhead Press'', ex_category = ''Push'',
          ex_sessions =
            [\<lparr>es_id = ''s3'', es_date = ''2024-03-04T17:20:00.000Z'',
              es_sets = [\<lparr>reps = Finite 10 0, weight = PosInfinity\<rparr>], es_note = None\<rparr>]\<rparr>],
      workoutSessions = []\<rparr>"

definition infinity_read :: json where
  "infinity_read =
     JObj [(''exercises'',
            JArr [JObj [(''id'', JStr ''B''), (''name'', JStr ''Overhead Press''),
                        (''category'', JStr ''Push''),
                        (''sessions'',
                         JArr [JObj [(''id'', JStr ''s3''),
                                     (''date'', JStr ''2024-03-04T17:20:00.000Z''),
                                     (''sets'',
                                      JArr [JObj [(''reps'', JNum (Finite 10 0)),
                                                  (''weight'', JNull)]])]])]]),
           (''workoutSessions'', JArr [])]"

section \<open>Properties of the mutations\<close>

subsection \<open>deleteWorkoutSession\<close>

lemma find_distinct_id:
  "distinct (map f xs) \<Longrightarrow> x \<in> set xs \<Longrightarrow> find (\<lambda>y. f y = f x) xs = Some x"
  by (induction xs) (auto simp: rev_image_eqI)

lemma filter_distinct_id:
  "distinct (map f xs) \<Longrightarrow> x \<in> set xs \<Longrightarrow> filter (\<lambda>y. f y \<noteq> f x) xs = remove1 x xs"
proof (induction xs)
  case Nil
  then show ?case by simp
next
  case (Cons a xs)
  show ?case
  proof (cases "x = a")
    case True
    have "\<forall>y \<in> set xs. f y \<noteq> f a"
      using Cons.prems(1) by (fastforce simp: image_iff)
    then have "filter (\<lambda>y. f y \<noteq> f a) xs = xs"
      by (simp add: filter_id_conv)
    with True show ?thesis by simp
  next
    case False
    with Cons.prems have "x \<in> set xs" and "f a \<noteq> f x"
      by auto
    with Cons False show ?thesis by simp
  qed
qed

text \<open>
  C1. In a snapshot whose workout sessions have unique ids (the data model), deleting the
  workout session \<open>S\<close> removes \<open>S\<close> and nothing else from \<open>workoutSessions\<close>; an exercise
  whose id is in \<open>S.exerciseIds\<close> loses exactly its exercise sessions dated on the day of
  \<open>S.startTime\<close> (the others stay, in order, and its other fields are kept); an exercise
  whose id is not in \<open>S.exerciseIds\<close> is unchanged.
\<close>

theorem deleteWorkoutSession_cascade:
  assumes "S \<in> set (workoutSessions d)"
    and "distinct (map ws_id (workoutSessions d))"
  shows "S \<notin> set (workoutSessions (deleteWorkoutSession (ws_id S) d))
    \<and> workoutSessions (deleteWorkoutSession (ws_id S) d) = remove1 S (workoutSessions d)
    \<and> length (exercises (deleteWorkoutSession (ws_id S) d)) = length (exercises d)
    \<and> (\<forall>i < length (exercises d).
          (ex_id (exercises d ! i) \<in> set (ws_exerciseIds S) \<longrightarrow>
             exercises (deleteWorkoutSession (ws_id S) d) ! i =
               (exercises d ! i)\<lparr>ex_sessions :=
                  filter (\<lambda>es. date_part (es_date es) \<noteq> date_part (ws_startTime S))
                    (ex_sessions (exercises d ! i))\<rparr>)
        \<and> (ex_id (exercises d ! i) \<notin> set (ws_exerciseIds S) \<longrightarrow>
             exercises (deleteWorkoutSession (ws_id S) d) ! i = exercises d ! i))"
proof -
  have f: "find (\<lambda>s. ws_id s = ws_id S) (workoutSessions d) = Some S"
    using assms by (simp add: find_distinct_id)
  have r: "filter (\<lambda>s. ws_id s \<noteq> ws_id S) (workoutSessions d) = remove1 S (workoutSessions d)"
    using assms by (simp add: filter_distinct_id)
  have "distinct (workoutSessions d)"
    using assms(2) by (simp add: distinct_map)
  then have n: "S \<notin> set (remove1 S (workoutSessions d))"
    by simp
  show ?thesis
    using n by (simp add: deleteWorkoutSession_def f r Let_def)
qed

theorem deleteWorkoutSession_cascade_witness:
  "demo_w1 \<in> set (workoutSessions demo_data)
   \<and> distinct (map ws_id (workoutSessions demo_data))
   \<and> workoutSessions (deleteWorkoutSession ''w1'' demo_data) = [demo_w2]
   \<and> ex_id (exercises demo_data ! 0) \<in> set (ws_exerciseIds demo_w1)
   \<and> ex_sessions (exercises (deleteWorkoutSession ''w1'' demo_data) ! 0) =
       [\<lparr>es_id = ''s2'', es_date = ''2024-03-06T17:05:00.000Z'',
         es_sets = [\<lparr>reps = Finite 8 0, weight = Finite 60 0\<rparr>, \<lparr>reps = Finite 6 0, weight = Finite 65 0\<rparr>],
         es_note = None\<rparr>]
   \<and> ex_id (exercises demo_data ! 2) \<notin> set (ws_exerciseIds demo_w1)
   \<and> exercises (deleteWorkoutSession ''w1'' demo_data) ! 2 = demo_exC"
proof -
  have h1: "demo_w1 \<in> set (workoutSessions demo_data)"
    by (simp add: demo_data_def)
  have h2: "distinct (map ws_id (workoutSessions demo_data))"
    by (simp add: demo_data_def demo_w1_def demo_w2_def)
  have i: "ws_id demo_w1 = ''w1''"
    by (simp add: demo_w1_def)
  show ?thesis
    using deleteWorkoutSession_cascade [OF h1 h2] h1 h2
    by (simp add: i demo_data_def demo_w1_def demo_w2_def demo_exA_def demo_exB_def
        demo_exC_def date_part_def)
qed

subsection \<open>addSetToExercise\<close>

lemma findIndex_None_iff: "findIndex P xs = None \<longleftrightarrow> (\<forall>x \<in> set xs. \<not> P x)"
  by (induction xs) auto

lemma findIndex_SomeD:
  "findIndex P xs = Some k \<Longrightarrow> k < length xs \<and> P (xs ! k) \<and> (\<forall>j < k. \<not> P (xs ! j))"
proof (induction xs arbitrary: k)
  case Nil
  then show ?case by simp
next
  case (Cons x xs)
  show ?case
  proof (cases "P x")
    case True
    with Cons.prems show ?thesis by simp
  next
    case False
    with Cons.prems obtain k' where k': "findIndex P xs = Some k'" "k = Suc k'"
      by auto
    from Cons.IH [OF k'(1)] False k'(2) show ?thesis
      by (auto simp: nth_Cons split: nat.splits)
  qed
qed

lemma findIndex_unique:
  "length (filter P xs) \<le> 1 \<Longrightarrow> k < length xs \<Longrightarrow> P (xs ! k) \<Longrightarrow> findIndex P xs = Some k"
proof (induction xs arbitrary: k)
  case Nil
  then show ?case by simp
next
  case (Cons x xs)
  show ?case
  proof (cases "P x")
    case True
    with Cons.prems(1) have "filter P xs = []" by simp
    then have none: "\<forall>y \<in> set xs. \<not> P y"
      by (simp add: filter_empty_conv)
    have "k = 0"
    proof (rule ccontr)
      assume "k \<noteq> 0"
      then obtain k' where "k = Suc k'" by (cases k) auto
      with Cons.prems(2,3) have "k' < length xs" "P (xs ! k')" by auto
      with none show False by auto
    qed
    with True show ?thesis by simp
  next
    case False
    with Cons.prems(3) obtain k' where k': "k = Suc k'"
      by (cases k) auto
    with Cons.prems False have "findIndex P xs = Some k'"
      by (intro Cons.IH) auto
    with False k' show ?thesis by simp
  qed
qed

lemma findIndex_update:
  "findIndex P xs = Some k \<Longrightarrow> P z \<Longrightarrow> findIndex P (xs[k := z]) = Some k"
proof (induction xs arbitrary: k)
  case Nil
  then show ?case by simp
next
  case (Cons x xs)
  then show ?case
    by (cases "P x") auto
qed

lemma filter_update_single:
  "findIndex P xs = Some k \<Longrightarrow> P z \<Longrightarrow> length (filter P xs) \<le> 1 \<Longrightarrow> filter P (xs[k := z]) = [z]"
proof (induction xs arbitrary: k)
  case Nil
  then show ?case by simp
next
  case (Cons x xs)
  show ?case
  proof (cases "P x")
    case True
    with Cons.prems have "k = 0" "filter P xs = []" by auto
    with True Cons.prems(2) show ?thesis by simp
  next
    case False
    with Cons.prems obtain k' where k': "findIndex P xs = Some k'" "k = Suc k'"
      by auto
    with Cons.IH [OF k'(1) Cons.prems(2)] Cons.prems(3) False show ?thesis by simp
  qed
qed

lemma findIndex_append_new:
  "\<forall>x \<in> set xs. \<not> P x \<Longrightarrow> P z \<Longrightarrow> findIndex P (xs @ [z]) = Some (length xs)"
  by (induction xs) auto

lemma addSet_exercise_twice:
  assumes "date_part date1 = date_part date2"
  shows "ex_sessions (addSet_exercise s2 date2 id2 (addSet_exercise s1 date1 id1 e)) =
    (case findIndex (\<lambda>s. date_part (es_date s) = date_part date1) (ex_sessions e) of
       None \<Rightarrow> ex_sessions e @
         [\<lparr>es_id = id1, es_date = date1, es_sets = [s1, s2], es_note = None\<rparr>]
     | Some k \<Rightarrow> (ex_sessions e)
         [k := (ex_sessions e ! k)\<lparr>es_sets := es_sets (ex_sessions e ! k) @ [s1, s2]\<rparr>])"
proof (cases "findIndex (\<lambda>s. date_part (es_date s) = date_part date1) (ex_sessions e)")
  case None
  let ?new = "\<lparr>es_id = id1, es_date = date1, es_sets = [s1], es_note = None\<rparr>"
  have 1: "ex_sessions (addSet_exercise s1 date1 id1 e) = ex_sessions e @ [?new]"
    using None by (simp add: addSet_exercise_def)
  have "\<forall>x \<in> set (ex_sessions e). \<not> date_part (es_date x) = date_part date2"
    using None assms by (simp add: findIndex_None_iff)
  then have 2: "findIndex (\<lambda>s. date_part (es_date s) = date_part date2) (ex_sessions e @ [?new])
      = Some (length (ex_sessions e))"
    using assms by (intro findIndex_append_new) auto
  show ?thesis
    using None by (simp add: addSet_exercise_def [of s2] 1 2)
next
  case (Some k)
  let ?xs = "ex_sessions e"
  let ?y = "(?xs ! k)\<lparr>es_sets := es_sets (?xs ! k) @ [s1]\<rparr>"
  have k: "k < length ?xs"
    using findIndex_SomeD [OF Some] by simp
  have 1: "ex_sessions (addSet_exercise s1 date1 id1 e) = ?xs[k := ?y]"
    using Some by (simp add: addSet_exercise_def)
  have "date_part (es_date ?y) = date_part date1"
    using findIndex_SomeD [OF Some] by simp
  then have 2: "findIndex (\<lambda>s. date_part (es_date s) = date_part date2) (?xs[k := ?y]) = Some k"
    using Some assms findIndex_update [of "\<lambda>s. date_part (es_date s) = date_part date1" ?xs k ?y]
    by simp
  show ?thesis
    using Some k by (simp add: addSet_exercise_def [of s2] 1 2)
qed

lemma addSet_exercise_fields:
  "ex_id (addSet_exercise st ds nid e) = ex_id e"
  "ex_name (addSet_exercise st ds nid e) = ex_name e"
  "ex_category (addSet_exercise st ds nid e) = ex_category e"
  by (simp_all add: addSet_exercise_def split: option.splits)

lemma addSetToExercise_nth:
  "i < length (exercises d) \<Longrightarrow> ex_id (exercises d ! i) = eid \<Longrightarrow>
   exercises (addSetToExercise eid st ds nid d) ! i = addSet_exercise st ds nid (exercises d ! i)"
  by (simp add: addSetToExercise_def)

lemma addSetToExercise_length:
  "length (exercises (addSetToExercise eid st ds nid d)) = length (exercises d)"
  by (simp add: addSetToExercise_def)

text \<open>
  C3. Two calls of \<open>addSetToExercise\<close> for the same exercise with dates of the same
  calendar day, on an exercise that has at most one session for that day (the data
  model): when the day has no session yet, the first call creates it and the exercise
  ends with that one new session holding both sets in call order; when the day has a
  session, both sets are appended to it in call order and no session is added. Either
  way the exercise has exactly one session for that day, and its sets end with the two
  new sets.
\<close>

theorem addSetToExercise_twice_same_day:
  assumes "i < length (exercises d)"
    and "ex_id (exercises d ! i) = eid"
    and "date_part date1 = date_part date2"
    and "length (filter (\<lambda>s. date_part (es_date s) = date_part date1)
           (ex_sessions (exercises d ! i))) \<le> 1"
  shows "(filter (\<lambda>s. date_part (es_date s) = date_part date1) (ex_sessions (exercises d ! i)) = []
        \<longrightarrow> ex_sessions (exercises (addSetToExercise eid s2 date2 id2
                (addSetToExercise eid s1 date1 id1 d)) ! i) =
            ex_sessions (exercises d ! i) @
              [\<lparr>es_id = id1, es_date = date1, es_sets = [s1, s2], es_note = None\<rparr>])
    \<and> (\<forall>k < length (ex_sessions (exercises d ! i)).
          date_part (es_date (ex_sessions (exercises d ! i) ! k)) = date_part date1
        \<longrightarrow> ex_sessions (exercises (addSetToExercise eid s2 date2 id2
                (addSetToExercise eid s1 date1 id1 d)) ! i) =
            (ex_sessions (exercises d ! i))
              [k := (ex_sessions (exercises d ! i) ! k)
                 \<lparr>es_sets := es_sets (ex_sessions (exercises d ! i) ! k) @ [s1, s2]\<rparr>])
    \<and> (\<exists>s old. filter (\<lambda>s. date_part (es_date s) = date_part date1)
            (ex_sessions (exercises (addSetToExercise eid s2 date2 id2
                (addSetToExercise eid s1 date1 id1 d)) ! i)) = [s]
          \<and> es_sets s = old @ [s1, s2])"
proof -
  let ?P = "\<lambda>s. date_part (es_date s) = date_part date1"
  let ?e = "exercises d ! i"
  let ?xs = "ex_sessions ?e"
  let ?d1 = "addSetToExercise eid s1 date1 id1 d"
  let ?e' = "exercises (addSetToExercise eid s2 date2 id2 ?d1) ! i"
  have e1: "exercises ?d1 ! i = addSet_exercise s1 date1 id1 ?e"
    using assms(1,2) by (rule addSetToExercise_nth)
  have "i < length (exercises ?d1)" "ex_id (exercises ?d1 ! i) = eid"
    using assms(1,2) by (simp_all add: addSetToExercise_length e1 addSet_exercise_fields)
  then have "?e' = addSet_exercise s2 date2 id2 (exercises ?d1 ! i)"
    by (rule addSetToExercise_nth)
  then have eq: "ex_sessions ?e' =
    (case findIndex ?P ?xs of
       None \<Rightarrow> ?xs @ [\<lparr>es_id = id1, es_date = date1, es_sets = [s1, s2], es_note = None\<rparr>]
     | Some k \<Rightarrow> ?xs[k := (?xs ! k)\<lparr>es_sets := es_sets (?xs ! k) @ [s1, s2]\<rparr>])"
    using addSet_exercise_twice [OF assms(3)] e1 by simp
  have A: "filter ?P ?xs = [] \<longrightarrow> ex_sessions ?e' =
      ?xs @ [\<lparr>es_id = id1, es_date = date1, es_sets = [s1, s2], es_note = None\<rparr>]"
  proof
    assume "filter ?P ?xs = []"
    then have "findIndex ?P ?xs = None"
      by (simp add: findIndex_None_iff filter_empty_conv)
    with eq show "ex_sessions ?e' =
      ?xs @ [\<lparr>es_id = id1, es_date = date1, es_sets = [s1, s2], es_note = None\<rparr>]"
      by simp
  qed
  have B: "\<forall>k < length ?xs. ?P (?xs ! k) \<longrightarrow>
      ex_sessions ?e' = ?xs[k := (?xs ! k)\<lparr>es_sets := es_sets (?xs ! k) @ [s1, s2]\<rparr>]"
  proof (intro allI impI)
    fix k assume "k < length ?xs" "?P (?xs ! k)"
    with assms(4) have "findIndex ?P ?xs = Some k"
      by (intro findIndex_unique)
    with eq show "ex_sessions ?e' = ?xs[k := (?xs ! k)\<lparr>es_sets := es_sets (?xs ! k) @ [s1, s2]\<rparr>]"
      by simp
  qed
  have C: "\<exists>s old. filter ?P (ex_sessions ?e') = [s] \<and> es_sets s = old @ [s1, s2]"
  proof (cases "findIndex ?P ?xs")
    case None
    then have "filter ?P ?xs = []"
      by (simp add: findIndex_None_iff filter_empty_conv)
    with eq None have "filter ?P (ex_sessions ?e') =
        [\<lparr>es_id = id1, es_date = date1, es_sets = [s1, s2], es_note = None\<rparr>]"
      by simp
    then show ?thesis
      by (intro exI [of _ "\<lparr>es_id = id1, es_date = date1, es_sets = [s1, s2], es_note = None\<rparr>"]
          exI [of _ "[]"]) simp
  next
    case (Some k)
    let ?z = "(?xs ! k)\<lparr>es_sets := es_sets (?xs ! k) @ [s1, s2]\<rparr>"
    have "?P ?z"
      using findIndex_SomeD [OF Some] by simp
    with Some assms(4) have "filter ?P (?xs[k := ?z]) = [?z]"
      by (intro filter_update_single)
    with eq Some have "filter ?P (ex_sessions ?e') = [?z]"
      by simp
    then show ?thesis
      by (intro exI [of _ ?z] exI [of _ "es_sets (?xs ! k)"]) simp
  qed
  from A B C show ?thesis by blast
qed

theorem addSetToExercise_twice_same_day_witness:
  "ex_sessions (exercises (addSetToExercise ''B'' \<lparr>reps = Finite 5 0, weight = Finite 40 0\<rparr> ''2024-03-06T19:30:00.000Z'' ''n2''
      (addSetToExercise ''B'' \<lparr>reps = Finite 8 0, weight = Finite 35 0\<rparr> ''2024-03-06T19:00:00.000Z'' ''n1'' demo_data)) ! 1) =
     ex_sessions demo_exB @
       [\<lparr>es_id = ''n1'', es_date = ''2024-03-06T19:00:00.000Z'',
         es_sets = [\<lparr>reps = Finite 8 0, weight = Finite 35 0\<rparr>, \<lparr>reps = Finite 5 0, weight = Finite 40 0\<rparr>], es_note = None\<rparr>]
   \<and> ex_sessions (exercises (addSetToExercise ''A'' \<lparr>reps = Finite 5 0, weight = Finite 40 0\<rparr> ''2024-03-06T19:30:00.000Z'' ''n2''
      (addSetToExercise ''A'' \<lparr>reps = Finite 8 0, weight = Finite 35 0\<rparr> ''2024-03-06T19:00:00.000Z'' ''n1'' demo_data)) ! 0) =
     [\<lparr>es_id = ''s1'', es_date = ''2024-03-04T17:05:00.000Z'',
        es_sets = [\<lparr>reps = Finite 8 0, weight = Finite 60 0\<rparr>], es_note = None\<rparr>,
      \<lparr>es_id = ''s2'', es_date = ''2024-03-06T17:05:00.000Z'',
        es_sets = [\<lparr>reps = Finite 8 0, weight = Finite 60 0\<rparr>, \<lparr>reps = Finite 6 0, weight = Finite 65 0\<rparr>,
                   \<lparr>reps = Finite 8 0, weight = Finite 35 0\<rparr>, \<lparr>reps = Finite 5 0, weight = Finite 40 0\<rparr>],
        es_note = None\<rparr>]"
proof -
  have dp: "date_part ''2024-03-06T19:00:00.000Z'' = date_part ''2024-03-06T19:30:00.000Z''"
    by (simp add: date_part_def)
  have b1: "1 < length (exercises demo_data)" and b2: "ex_id (exercises demo_data ! 1) = ''B''"
    by (simp_all add: demo_data_def demo_exB_def)
  have b3: "length (filter (\<lambda>s. date_part (es_date s) = date_part ''2024-03-06T19:00:00.000Z'')
       (ex_sessions (exercises demo_data ! 1))) \<le> 1"
    by (simp add: demo_data_def demo_exB_def date_part_def)
  have a1: "0 < length (exercises demo_data)" and a2: "ex_id (exercises demo_data ! 0) = ''A''"
    by (simp_all add: demo_data_def demo_exA_def)
  have a3: "length (filter (\<lambda>s. date_part (es_date s) = date_part ''2024-03-06T19:00:00.000Z'')
       (ex_sessions (exercises demo_data ! 0))) \<le> 1"
    by (simp add: demo_data_def demo_exA_def date_part_def)
  note B = addSetToExercise_twice_same_day [OF b1 b2 dp b3,
      of "\<lparr>reps = Finite 5 0, weight = Finite 40 0\<rparr>" "''n2''" "\<lparr>reps = Finite 8 0, weight = Finite 35 0\<rparr>" "''n1''"]
  note A = addSetToExercise_twice_same_day [OF a1 a2 dp a3,
      of "\<lparr>reps = Finite 5 0, weight = Finite 40 0\<rparr>" "''n2''" "\<lparr>reps = Finite 8 0, weight = Finite 35 0\<rparr>" "''n1''"]
  have fB: "filter (\<lambda>s. date_part (es_date s) = date_part ''2024-03-06T19:00:00.000Z'')
      (ex_sessions (exercises demo_data ! 1)) = []"
    by (simp add: demo_data_def demo_exB_def date_part_def)
  have kA: "1 < length (ex_sessions (exercises demo_data ! 0))"
    "date_part (es_date (ex_sessions (exercises demo_data ! 0) ! 1)) =
       date_part ''2024-03-06T19:00:00.000Z''"
    by (simp_all add: demo_data_def demo_exA_def date_part_def)
  from B fB have 1: "ex_sessions (exercises (addSetToExercise ''B'' \<lparr>reps = Finite 5 0, weight = Finite 40 0\<rparr>
        ''2024-03-06T19:30:00.000Z'' ''n2''
      (addSetToExercise ''B'' \<lparr>reps = Finite 8 0, weight = Finite 35 0\<rparr> ''2024-03-06T19:00:00.000Z'' ''n1'' demo_data)) ! 1) =
     ex_sessions (exercises demo_data ! 1) @
       [\<lparr>es_id = ''n1'', es_date = ''2024-03-06T19:00:00.000Z'',
         es_sets = [\<lparr>reps = Finite 8 0, weight = Finite 35 0\<rparr>, \<lparr>reps = Finite 5 0, weight = Finite 40 0\<rparr>], es_note = None\<rparr>]"
    by blast
  from A kA have 2: "ex_sessions (exercises (addSetToExercise ''A'' \<lparr>reps = Finite 5 0, weight = Finite 40 0\<rparr>
        ''2024-03-06T19:30:00.000Z'' ''n2''
      (addSetToExercise ''A'' \<lparr>reps = Finite 8 0, weight = Finite 35 0\<rparr> ''2024-03-06T19:00:00.000Z'' ''n1'' demo_data)) ! 0) =
     (ex_sessions (exercises demo_data ! 0))
       [1 := (ex_sessions (exercises demo_data ! 0) ! 1)
          \<lparr>es_sets := es_sets (ex_sessions (exercises demo_data ! 0) ! 1) @
             [\<lparr>reps = Finite 8 0, weight = Finite 35 0\<rparr>, \<lparr>reps = Finite 5 0, weight = Finite 40 0\<rparr>]\<rparr>]"
    by blast
  show ?thesis
    by (simp only: 1 2) (simp add: demo_data_def demo_exA_def demo_exB_def)
qed

subsection \<open>deleteSet\<close>

lemma filter_index_all: "\<forall>i \<ge> n. p i \<Longrightarrow> filter_index p n xs = xs"
  by (induction xs arbitrary: n) auto

lemma filter_index_remove:
  "k < length xs \<Longrightarrow> filter_index (\<lambda>i. i \<noteq> n + k) n xs = take k xs @ drop (Suc k) xs"
proof (induction xs arbitrary: n k)
  case Nil
  then show ?case by simp
next
  case (Cons x xs)
  show ?case
  proof (cases k)
    case 0
    have "filter_index (\<lambda>i. i \<noteq> n) (Suc n) xs = xs"
      by (rule filter_index_all) auto
    with 0 show ?thesis by simp
  next
    case (Suc k')
    with Cons.prems have "k' < length xs" by simp
    from Cons.IH [OF this, of "Suc n"] Suc show ?thesis by simp
  qed
qed

lemma filter_index_int:
  "k < length xs \<Longrightarrow> filter_index (\<lambda>i. int i \<noteq> int k) 0 xs = take k xs @ drop (Suc k) xs"
  using filter_index_remove [of k xs 0] by simp

lemma deleteSet_nth:
  "i < length (exercises d) \<Longrightarrow> ex_id (exercises d ! i) = eid \<Longrightarrow>
   ex_sessions (exercises (deleteSet eid sid k d) ! i) =
     filter (\<lambda>session. length (es_sets session) > 0)
       (map (\<lambda>session. if es_id session \<noteq> sid then session
               else session\<lparr>es_sets := filter_index (\<lambda>i. int i \<noteq> k) 0 (es_sets session)\<rparr>)
          (ex_sessions (exercises d ! i)))"
  by (simp add: deleteSet_def)

lemma prune_others:
  assumes "j < length xs"
    and "\<forall>j' < length xs. j' \<noteq> j \<longrightarrow> Q (g (xs ! j'))"
    and "\<not> Q (g (xs ! j))"
  shows "filter Q (map g xs) = map g (take j xs @ drop (Suc j) xs)"
proof -
  have xs: "xs = take j xs @ xs ! j # drop (Suc j) xs"
    using assms(1) by (simp add: id_take_nth_drop)
  have t: "\<forall>x \<in> set (take j xs). Q (g x)"
  proof
    fix x assume "x \<in> set (take j xs)"
    then obtain m where "m < length (take j xs)" "take j xs ! m = x"
      by (auto simp: in_set_conv_nth)
    with assms(1,2) show "Q (g x)" by auto
  qed
  have d: "\<forall>x \<in> set (drop (Suc j) xs). Q (g x)"
  proof
    fix x assume "x \<in> set (drop (Suc j) xs)"
    then obtain m where m: "m < length (drop (Suc j) xs)" "drop (Suc j) xs ! m = x"
      by (auto simp: in_set_conv_nth)
    then have "Suc j + m < length xs" "xs ! (Suc j + m) = x" by auto
    with assms(2) show "Q (g x)" by fastforce
  qed
  have "filter Q (map g xs) =
      filter Q (map g (take j xs)) @ filter Q [g (xs ! j)] @ filter Q (map g (drop (Suc j) xs))"
    by (subst xs) simp
  also have "filter Q (map g (take j xs)) = map g (take j xs)"
    using t by (simp add: filter_id_conv)
  also have "filter Q (map g (drop (Suc j) xs)) = map g (drop (Suc j) xs)"
    using d by (simp add: filter_id_conv)
  finally show ?thesis using assms(3) by simp
qed

text \<open>
  C2 (as amended). For an exercise and one of its sessions: when the session has exactly
  one set and every other session of the exercise has another id and at least one set,
  \<open>deleteSet\<close> at index 0 removes that session and nothing else, so the session count
  drops by exactly one; when the session has at least two sets and the index is within
  range, the session stays, with the set at that index removed and the others in their
  original order.
\<close>

theorem deleteSet_prunes_or_shrinks:
  assumes "i < length (exercises d)"
    and "ex_id (exercises d ! i) = eid"
    and "j < length (ex_sessions (exercises d ! i))"
    and "es_id (ex_sessions (exercises d ! i) ! j) = sid"
  shows "(length (es_sets (ex_sessions (exercises d ! i) ! j)) = 1
          \<and> (\<forall>j' < length (ex_sessions (exercises d ! i)). j' \<noteq> j \<longrightarrow>
                es_id (ex_sessions (exercises d ! i) ! j') \<noteq> sid
                \<and> es_sets (ex_sessions (exercises d ! i) ! j') \<noteq> [])
        \<longrightarrow> ex_sessions (exercises (deleteSet eid sid 0 d) ! i) =
              take j (ex_sessions (exercises d ! i)) @ drop (Suc j) (ex_sessions (exercises d ! i))
          \<and> length (ex_sessions (exercises (deleteSet eid sid 0 d) ! i)) + 1 =
              length (ex_sessions (exercises d ! i)))
    \<and> (\<forall>k < length (es_sets (ex_sessions (exercises d ! i) ! j)).
          2 \<le> length (es_sets (ex_sessions (exercises d ! i) ! j))
        \<longrightarrow> (ex_sessions (exercises d ! i) ! j)
              \<lparr>es_sets := take k (es_sets (ex_sessions (exercises d ! i) ! j)) @
                          drop (Suc k) (es_sets (ex_sessions (exercises d ! i) ! j))\<rparr>
              \<in> set (ex_sessions (exercises (deleteSet eid sid (int k) d) ! i))
          \<and> length (take k (es_sets (ex_sessions (exercises d ! i) ! j)) @
                    drop (Suc k) (es_sets (ex_sessions (exercises d ! i) ! j))) + 1 =
              length (es_sets (ex_sessions (exercises d ! i) ! j)))"
proof -
  let ?xs = "ex_sessions (exercises d ! i)"
  let ?s = "?xs ! j"
  let ?Q = "\<lambda>session. length (es_sets session) > 0"
  let ?g = "\<lambda>k session. if es_id session \<noteq> sid then session
               else session\<lparr>es_sets := filter_index (\<lambda>i. int i \<noteq> k) 0 (es_sets session)\<rparr>"
  have eq: "ex_sessions (exercises (deleteSet eid sid k d) ! i) = filter ?Q (map (?g k) ?xs)" for k
    using assms(1,2) by (rule deleteSet_nth)
  have A: "ex_sessions (exercises (deleteSet eid sid 0 d) ! i) = take j ?xs @ drop (Suc j) ?xs
      \<and> length (ex_sessions (exercises (deleteSet eid sid 0 d) ! i)) + 1 = length ?xs"
    if one: "length (es_sets ?s) = 1"
      and others: "\<forall>j' < length ?xs. j' \<noteq> j \<longrightarrow> es_id (?xs ! j') \<noteq> sid \<and> es_sets (?xs ! j') \<noteq> []"
  proof -
    have "filter_index (\<lambda>i. int i \<noteq> int 0) 0 (es_sets ?s) = take 0 (es_sets ?s) @ drop (Suc 0) (es_sets ?s)"
      using one by (intro filter_index_int) simp
    then have gone: "\<not> ?Q (?g 0 ?s)"
      using one assms(4) by simp
    have keep: "\<forall>j' < length ?xs. j' \<noteq> j \<longrightarrow> ?Q (?g 0 (?xs ! j'))"
      using others by auto
    have same: "map (?g 0) (take j ?xs @ drop (Suc j) ?xs) = take j ?xs @ drop (Suc j) ?xs"
    proof (rule map_idI)
      fix x assume "x \<in> set (take j ?xs @ drop (Suc j) ?xs)"
      then consider "x \<in> set (take j ?xs)" | "x \<in> set (drop (Suc j) ?xs)" by auto
      then have "\<exists>j' < length ?xs. j' \<noteq> j \<and> ?xs ! j' = x"
      proof cases
        case 1
        then obtain m where "m < length (take j ?xs)" "take j ?xs ! m = x"
          by (auto simp: in_set_conv_nth)
        with assms(3) show ?thesis by (intro exI [of _ m]) auto
      next
        case 2
        then obtain m where "m < length (drop (Suc j) ?xs)" "drop (Suc j) ?xs ! m = x"
          by (auto simp: in_set_conv_nth)
        then show ?thesis by (intro exI [of _ "Suc j + m"]) auto
      qed
      with others show "?g 0 x = x" by auto
    qed
    have "filter ?Q (map (?g 0) ?xs) = map (?g 0) (take j ?xs @ drop (Suc j) ?xs)"
      using assms(3) keep gone by (rule prune_others)
    with same eq [of 0] have r: "ex_sessions (exercises (deleteSet eid sid 0 d) ! i) =
        take j ?xs @ drop (Suc j) ?xs"
      by simp
    show ?thesis
      using assms(3) by (simp add: r)
  qed
  have B: "?s\<lparr>es_sets := take k (es_sets ?s) @ drop (Suc k) (es_sets ?s)\<rparr>
        \<in> set (ex_sessions (exercises (deleteSet eid sid (int k) d) ! i))
      \<and> length (take k (es_sets ?s) @ drop (Suc k) (es_sets ?s)) + 1 = length (es_sets ?s)"
    if k: "k < length (es_sets ?s)" and two: "2 \<le> length (es_sets ?s)" for k
  proof -
    have fi: "filter_index (\<lambda>i. int i \<noteq> int k) 0 (es_sets ?s) =
        take k (es_sets ?s) @ drop (Suc k) (es_sets ?s)"
      using k by (rule filter_index_int)
    have len: "length (take k (es_sets ?s) @ drop (Suc k) (es_sets ?s)) + 1 = length (es_sets ?s)"
      using k by simp
    have g: "?g (int k) ?s = ?s\<lparr>es_sets := take k (es_sets ?s) @ drop (Suc k) (es_sets ?s)\<rparr>"
      using assms(4) fi by simp
    have "?Q (?g (int k) ?s)"
      using len two by (simp only: g) simp
    moreover have "?g (int k) ?s \<in> set (map (?g (int k)) ?xs)"
      using assms(3) by (simp only: set_map) (rule imageI, simp)
    ultimately have "?g (int k) ?s \<in> set (filter ?Q (map (?g (int k)) ?xs))"
      by (simp only: set_filter) blast
    with g eq [of "int k"] len show ?thesis by simp
  qed
  from A B show ?thesis by blast
qed

theorem deleteSet_prunes_or_shrinks_witness:
  "ex_sessions (exercises (deleteSet ''A'' ''s1'' 0 demo_data) ! 0) =
     [\<lparr>es_id = ''s2'', es_date = ''2024-03-06T17:05:00.000Z'',
        es_sets = [\<lparr>reps = Finite 8 0, weight = Finite 60 0\<rparr>, \<lparr>reps = Finite 6 0, weight = Finite 65 0\<rparr>], es_note = None\<rparr>]
   \<and> \<lparr>es_id = ''s2'', es_date = ''2024-03-06T17:05:00.000Z'',
        es_sets = [\<lparr>reps = Finite 8 0, weight = Finite 60 0\<rparr>], es_note = None\<rparr>
      \<in> set (ex_sessions (exercises (deleteSet ''A'' ''s2'' 1 demo_data) ! 0))"
proof -
  have i: "0 < length (exercises demo_data)" and e: "ex_id (exercises demo_data ! 0) = ''A''"
    by (simp_all add: demo_data_def demo_exA_def)
  have xs: "ex_sessions (exercises demo_data ! 0) =
     [\<lparr>es_id = ''s1'', es_date = ''2024-03-04T17:05:00.000Z'',
        es_sets = [\<lparr>reps = Finite 8 0, weight = Finite 60 0\<rparr>], es_note = None\<rparr>,
      \<lparr>es_id = ''s2'', es_date = ''2024-03-06T17:05:00.000Z'',
        es_sets = [\<lparr>reps = Finite 8 0, weight = Finite 60 0\<rparr>, \<lparr>reps = Finite 6 0, weight = Finite 65 0\<rparr>], es_note = None\<rparr>]"
    by (simp add: demo_data_def demo_exA_def)
  have j0: "0 < length (ex_sessions (exercises demo_data ! 0))"
    "es_id (ex_sessions (exercises demo_data ! 0) ! 0) = ''s1''"
    by (simp_all add: xs)
  have j1: "1 < length (ex_sessions (exercises demo_data ! 0))"
    "es_id (ex_sessions (exercises demo_data ! 0) ! 1) = ''s2''"
    by (simp_all add: xs)
  have others: "\<forall>j' < length (ex_sessions (exercises demo_data ! 0)). j' \<noteq> 0 \<longrightarrow>
      es_id (ex_sessions (exercises demo_data ! 0) ! j') \<noteq> ''s1''
      \<and> es_sets (ex_sessions (exercises demo_data ! 0) ! j') \<noteq> []"
    by (simp add: xs less_Suc_eq)
  have one: "length (es_sets (ex_sessions (exercises demo_data ! 0) ! 0)) = 1"
    by (simp add: xs)
  have two: "1 < length (es_sets (ex_sessions (exercises demo_data ! 0) ! 1))"
    "2 \<le> length (es_sets (ex_sessions (exercises demo_data ! 0) ! 1))"
    by (simp_all add: xs)
  from deleteSet_prunes_or_shrinks [OF i e j0] one others
  have 1: "ex_sessions (exercises (deleteSet ''A'' ''s1'' 0 demo_data) ! 0) =
      take 0 (ex_sessions (exercises demo_data ! 0)) @
      drop (Suc 0) (ex_sessions (exercises demo_data ! 0))"
    by blast
  from deleteSet_prunes_or_shrinks [OF i e j1] two
  have 2: "(ex_sessions (exercises demo_data ! 0) ! 1)
      \<lparr>es_sets := take 1 (es_sets (ex_sessions (exercises demo_data ! 0) ! 1)) @
                  drop (Suc 1) (es_sets (ex_sessions (exercises demo_data ! 0) ! 1))\<rparr>
      \<in> set (ex_sessions (exercises (deleteSet ''A'' ''s2'' (int 1) demo_data) ! 0))"
    by blast
  show ?thesis
    using 1 2 by (simp add: xs)
qed

text \<open>
  C2 as stated fails when another session of the exercise has the same id: both
  one-set sessions are emptied and pruned, so the session count drops from 2 to 0.
\<close>

theorem deleteSet_count_counterexample:
  "length (es_sets (ex_sessions (exercises dup_data ! 0) ! 0)) = 1
   \<and> length (ex_sessions (exercises dup_data ! 0)) = 2
   \<and> length (ex_sessions (exercises (deleteSet ''A'' ''s1'' 0 dup_data) ! 0)) = 0
   \<and> length (ex_sessions (exercises (deleteSet ''A'' ''s1'' 0 dup_data) ! 0)) \<noteq>
       length (ex_sessions (exercises dup_data ! 0)) - 1"
  by (simp add: dup_data_def deleteSet_def)

section \<open>Properties of the statistics\<close>

subsection \<open>getUniqueWorkoutDates and getLastWorkoutDate\<close>

lemma set_set_add: "set (set_add x xs) = insert x (set xs)"
  by (auto simp: set_add_def)

lemma distinct_set_add: "distinct xs \<Longrightarrow> distinct (set_add x xs)"
  by (simp add: set_add_def)

lemma fold_set_add:
  "set (fold (\<lambda>s acc. set_add (f s) acc) ss acc) = f ` set ss \<union> set acc"
  by (induction ss arbitrary: acc) (auto simp: set_set_add)

lemma distinct_fold_set_add:
  "distinct acc \<Longrightarrow> distinct (fold (\<lambda>s acc. set_add (f s) acc) ss acc)"
  by (induction ss arbitrary: acc) (auto simp: distinct_set_add)

lemma fold_fold_set_add:
  "set (fold (\<lambda>e acc. fold (\<lambda>s acc'. set_add (f s) acc') (g e) acc) es acc) =
     (\<Union>e \<in> set es. f ` set (g e)) \<union> set acc"
  by (induction es arbitrary: acc) (auto simp: fold_set_add)

lemma distinct_fold_fold_set_add:
  "distinct acc \<Longrightarrow>
   distinct (fold (\<lambda>e acc. fold (\<lambda>s acc'. set_add (f s) acc') (g e) acc) es acc)"
  by (induction es arbitrary: acc) (auto simp: distinct_fold_set_add)

lemma fold_cond_set_add:
  "set (fold (\<lambda>w acc. if C w then set_add (f w) acc else acc) ws acc) =
     f ` {w \<in> set ws. C w} \<union> set acc"
  by (induction ws arbitrary: acc) (auto simp: set_set_add)

lemma distinct_fold_cond_set_add:
  "distinct acc \<Longrightarrow> distinct (fold (\<lambda>w acc. if C w then set_add (f w) acc else acc) ws acc)"
  by (induction ws arbitrary: acc) (auto simp: distinct_set_add)

lemma set_getUniqueWorkoutDates:
  "set (getUniqueWorkoutDates d) =
     {date_part (es_date s) | e s. e \<in> set (exercises d) \<and> s \<in> set (ex_sessions e)}
     \<union> {date_part (ws_startTime w) | w. w \<in> set (workoutSessions d)
          \<and> truthy_bool (ws_isDwarfWorkout w) \<and> truthy_str (ws_endTime w)}"
  unfolding getUniqueWorkoutDates_def Let_def
  by (simp only: set_sort fold_cond_set_add fold_fold_set_add) auto

lemma distinct_getUniqueWorkoutDates: "distinct (getUniqueWorkoutDates d)"
  unfolding getUniqueWorkoutDates_def Let_def
  by (simp add: distinct_fold_cond_set_add distinct_fold_fold_set_add)

lemma sorted_getUniqueWorkoutDates: "sorted (getUniqueWorkoutDates d)"
  unfolding getUniqueWorkoutDates_def Let_def by simp

lemma nth_last_Max:
  fixes xs :: "'a::linorder list"
  assumes "sorted xs" "xs \<noteq> []"
  shows "xs ! (length xs - 1) = Max (set xs)"
proof (rule Max_eqI [symmetric])
  show "finite (set xs)" by simp
  show "y \<le> xs ! (length xs - 1)" if "y \<in> set xs" for y
  proof -
    from that obtain i where i: "i < length xs" "xs ! i = y"
      by (auto simp: in_set_conv_nth)
    then have "xs ! i \<le> xs ! (length xs - 1)"
      using assms(1) by (intro sorted_nth_mono) auto
    with i show ?thesis by simp
  qed
  show "xs ! (length xs - 1) \<in> set xs"
    using assms(2) by simp
qed

lemma truthy_str_iff: "v \<noteq> Some [] \<Longrightarrow> truthy_str v \<longleftrightarrow> v \<noteq> None"
  by (cases v) (auto simp: truthy_str_def)

lemma truthy_bool_iff: "truthy_bool v \<longleftrightarrow> v = Some True"
  by (cases v) (auto simp: truthy_bool_def)


text \<open>
  C5. For every snapshot the list of unique workout dates is sorted ascending, has no
  duplicates, and holds exactly the date portions of all exercise-session dates together
  with the date portions of \<open>startTime\<close> of the workout sessions whose
  \<open>isDwarfWorkout\<close> is true and whose \<open>endTime\<close> is truthy; where no \<open>endTime\<close> is the
  empty string (an end time is a timestamp), truthy is the same as set.
  \<open>getLastWorkoutDate\<close> is the maximum of that list, or none when the list is empty.
\<close>

theorem getUniqueWorkoutDates_sorted_union:
  "sorted (getUniqueWorkoutDates d)
   \<and> distinct (getUniqueWorkoutDates d)
   \<and> set (getUniqueWorkoutDates d) =
       {date_part (es_date s) | e s. e \<in> set (exercises d) \<and> s \<in> set (ex_sessions e)}
       \<union> {date_part (ws_startTime w) | w. w \<in> set (workoutSessions d)
            \<and> ws_isDwarfWorkout w = Some True \<and> truthy_str (ws_endTime w)}
   \<and> ((\<forall>w \<in> set (workoutSessions d). ws_endTime w \<noteq> Some '''') \<longrightarrow>
       set (getUniqueWorkoutDates d) =
       {date_part (es_date s) | e s. e \<in> set (exercises d) \<and> s \<in> set (ex_sessions e)}
       \<union> {date_part (ws_startTime w) | w. w \<in> set (workoutSessions d)
            \<and> ws_isDwarfWorkout w = Some True \<and> ws_endTime w \<noteq> None})
   \<and> getLastWorkoutDate d =
       (if getUniqueWorkoutDates d = [] then None
        else Some (Max (set (getUniqueWorkoutDates d))))"
proof -
  have S: "set (getUniqueWorkoutDates d) =
       {date_part (es_date s) | e s. e \<in> set (exercises d) \<and> s \<in> set (ex_sessions e)}
       \<union> {date_part (ws_startTime w) | w. w \<in> set (workoutSessions d)
            \<and> ws_isDwarfWorkout w = Some True \<and> truthy_str (ws_endTime w)}"
    by (simp only: set_getUniqueWorkoutDates truthy_bool_iff)
  have T: "set (getUniqueWorkoutDates d) =
       {date_part (es_date s) | e s. e \<in> set (exercises d) \<and> s \<in> set (ex_sessions e)}
       \<union> {date_part (ws_startTime w) | w. w \<in> set (workoutSessions d)
            \<and> ws_isDwarfWorkout w = Some True \<and> ws_endTime w \<noteq> None}"
    if "\<forall>w \<in> set (workoutSessions d). ws_endTime w \<noteq> Some ''''"
  proof -
    have "{date_part (ws_startTime w) | w. w \<in> set (workoutSessions d)
            \<and> ws_isDwarfWorkout w = Some True \<and> truthy_str (ws_endTime w)} =
          {date_part (ws_startTime w) | w. w \<in> set (workoutSessions d)
            \<and> ws_isDwarfWorkout w = Some True \<and> ws_endTime w \<noteq> None}"
    proof (rule Collect_cong)
      fix u
      have "truthy_str (ws_endTime w) \<longleftrightarrow> ws_endTime w \<noteq> None"
        if "w \<in> set (workoutSessions d)" for w
        using that \<open>\<forall>w \<in> set (workoutSessions d). ws_endTime w \<noteq> Some ''''\<close>
        by (simp add: truthy_str_iff)
      then show "(\<exists>w. u = date_part (ws_startTime w) \<and> w \<in> set (workoutSessions d)
            \<and> ws_isDwarfWorkout w = Some True \<and> truthy_str (ws_endTime w)) =
          (\<exists>w. u = date_part (ws_startTime w) \<and> w \<in> set (workoutSessions d)
            \<and> ws_isDwarfWorkout w = Some True \<and> ws_endTime w \<noteq> None)"
        by blast
    qed
    with S show ?thesis by (simp only:)
  qed
  have L: "getLastWorkoutDate d =
       (if getUniqueWorkoutDates d = [] then None
        else Some (Max (set (getUniqueWorkoutDates d))))"
    using nth_last_Max [OF sorted_getUniqueWorkoutDates, of d]
    by (simp add: getLastWorkoutDate_def Let_def)
  show ?thesis
    by (intro conjI impI T L sorted_getUniqueWorkoutDates distinct_getUniqueWorkoutDates) (rule S)
qed

theorem getUniqueWorkoutDates_sorted_union_witness:
  "getUniqueWorkoutDates dwarf_data = [''2024-03-04'', ''2024-03-05'', ''2024-03-06'']
   \<and> set (getUniqueWorkoutDates dwarf_data) =
       {date_part (es_date s) | e s. e \<in> set (exercises dwarf_data) \<and> s \<in> set (ex_sessions e)}
       \<union> {date_part (ws_startTime w) | w. w \<in> set (workoutSessions dwarf_data)
            \<and> ws_isDwarfWorkout w = Some True \<and> ws_endTime w \<noteq> None}
   \<and> getLastWorkoutDate dwarf_data = Some (Max (set (getUniqueWorkoutDates dwarf_data)))
   \<and> getLastWorkoutDate dwarf_data = Some ''2024-03-06''"
proof -
  have h: "\<forall>w \<in> set (workoutSessions dwarf_data). ws_endTime w \<noteq> Some ''''"
    by (simp add: dwarf_data_def demo_w1_def demo_w2_def demo_w3_def)
  have ev: "getUniqueWorkoutDates dwarf_data = [''2024-03-04'', ''2024-03-05'', ''2024-03-06'']"
    by code_simp
  have lastd: "getLastWorkoutDate dwarf_data = Some ''2024-03-06''"
    by code_simp
  have ne: "getUniqueWorkoutDates dwarf_data \<noteq> []"
    by (simp add: ev)
  note T = getUniqueWorkoutDates_sorted_union [of dwarf_data]
  from T h have a: "set (getUniqueWorkoutDates dwarf_data) =
       {date_part (es_date s) | e s. e \<in> set (exercises dwarf_data) \<and> s \<in> set (ex_sessions e)}
       \<union> {date_part (ws_startTime w) | w. w \<in> set (workoutSessions dwarf_data)
            \<and> ws_isDwarfWorkout w = Some True \<and> ws_endTime w \<noteq> None}"
    by (elim conjE impE)
  from T have "getLastWorkoutDate dwarf_data =
       (if getUniqueWorkoutDates dwarf_data = [] then None
        else Some (Max (set (getUniqueWorkoutDates dwarf_data))))"
    by (elim conjE)
  with ne have b: "getLastWorkoutDate dwarf_data = Some (Max (set (getUniqueWorkoutDates dwarf_data)))"
    by (simp only: if_False)
  from ev a b lastd show ?thesis
    by (intro conjI)
qed

subsection \<open>getMuscleGroupOrder\<close>

lemma find_first_nth:
  "n < length xs \<Longrightarrow> P (xs ! n) \<Longrightarrow> \<forall>m < n. \<not> P (xs ! m) \<Longrightarrow> find P xs = Some (xs ! n)"
proof (induction xs arbitrary: n)
  case Nil
  then show ?case by simp
next
  case (Cons x xs)
  show ?case
  proof (cases n)
    case 0
    with Cons.prems show ?thesis by simp
  next
    case (Suc n')
    with Cons.prems have "\<not> P x" by auto
    moreover from Suc Cons.prems have "find P xs = Some (xs ! n')"
      by (intro Cons.IH) auto
    ultimately show ?thesis using Suc by simp
  qed
qed

lemma findIndex_Some_iff_ex: "(findIndex P xs \<noteq> None) \<longleftrightarrow> (\<exists>x \<in> set xs. P x)"
  by (simp add: findIndex_None_iff)

lemma getMuscleGroupOrder_primary:
  assumes "find (\<lambda>ws. date_part (ws_startTime ws) = date_part d \<and> x \<in> set (ws_exerciseIds ws)) wss
            = Some ws"
    and "findIndex (\<lambda>i. i = x)
           (filter (\<lambda>i. case find (\<lambda>e. ex_id e = i) exs of None \<Rightarrow> False
                        | Some ex \<Rightarrow> ex_category ex = c) (ws_exerciseIds ws)) = Some k"
  shows "getMuscleGroupOrder x c d wss exs = Some (Suc k)"
  using assms by (simp add: getMuscleGroupOrder_def)


lemma find_id_category:
  assumes "distinct (map ex_id exs)"
  shows "(case find (\<lambda>e. ex_id e = x) exs of None \<Rightarrow> False | Some ex \<Rightarrow> ex_category ex = c)
     \<longleftrightarrow> (\<exists>ex \<in> set exs. ex_id ex = x \<and> ex_category ex = c)"
proof
  assume "case find (\<lambda>e. ex_id e = x) exs of None \<Rightarrow> False | Some ex \<Rightarrow> ex_category ex = c"
  then obtain ex where "find (\<lambda>e. ex_id e = x) exs = Some ex" "ex_category ex = c"
    by (auto split: option.splits)
  then show "\<exists>ex \<in> set exs. ex_id ex = x \<and> ex_category ex = c"
    by (auto simp: find_Some_iff)
next
  assume "\<exists>ex \<in> set exs. ex_id ex = x \<and> ex_category ex = c"
  then obtain ex where ex: "ex \<in> set exs" "ex_id ex = x" "ex_category ex = c"
    by blast
  have "find (\<lambda>e. ex_id e = ex_id ex) exs = Some ex"
    using assms ex(1) by (rule find_distinct_id)
  with ex show "case find (\<lambda>e. ex_id e = x) exs of None \<Rightarrow> False | Some ex \<Rightarrow> ex_category ex = c"
    by simp
qed

lemma getMuscleGroupOrder_None_iff:
  assumes "distinct (map ex_id exs)"
  shows "getMuscleGroupOrder x c d wss exs = None \<longleftrightarrow>
     \<not> ((\<exists>ws \<in> set wss. date_part (ws_startTime ws) = date_part d \<and> x \<in> set (ws_exerciseIds ws))
        \<and> (\<exists>ex \<in> set exs. ex_id ex = x \<and> ex_category ex = c))
     \<and> \<not> (\<exists>ex \<in> set exs. ex_id ex = x \<and> ex_category ex = c
           \<and> (\<exists>s \<in> set (ex_sessions ex). date_part (es_date s) = date_part d \<and> es_sets s \<noteq> []))"
proof -
  let ?P = "\<lambda>ws. date_part (ws_startTime ws) = date_part d \<and> x \<in> set (ws_exerciseIds ws)"
  let ?cat = "\<lambda>i. case find (\<lambda>e. ex_id e = i) exs of None \<Rightarrow> False | Some ex \<Rightarrow> ex_category ex = c"
  let ?prim = "case find ?P wss of None \<Rightarrow> None
     | Some ws \<Rightarrow> map_option Suc (findIndex (\<lambda>i. i = x) (filter ?cat (ws_exerciseIds ws)))"
  let ?fb = "map_option Suc (findIndex (\<lambda>ex. ex_id ex = x)
     (filter (\<lambda>ex. ex_category ex = c \<and>
        list_ex (\<lambda>s. date_part (es_date s) = date_part d \<and> length (es_sets s) > 0) (ex_sessions ex)) exs))"
  have def: "getMuscleGroupOrder x c d wss exs = (case ?prim of Some order \<Rightarrow> Some order | None \<Rightarrow> ?fb)"
    unfolding getMuscleGroupOrder_def Let_def by (rule refl)
  have prim: "?prim = None \<longleftrightarrow>
      \<not> ((\<exists>ws \<in> set wss. ?P ws) \<and> (\<exists>ex \<in> set exs. ex_id ex = x \<and> ex_category ex = c))"
  proof (cases "find ?P wss")
    case None
    then have "\<not> (\<exists>ws \<in> set wss. ?P ws)"
      by (simp add: find_None_iff)
    with None show ?thesis by simp
  next
    case (Some ws)
    then have ws: "ws \<in> set wss" "?P ws"
      by (auto simp: find_Some_iff)
    have "?prim = None \<longleftrightarrow> \<not> ?cat x"
      using ws by (simp add: Some findIndex_None_iff) blast
    also have "\<dots> \<longleftrightarrow> \<not> (\<exists>ex \<in> set exs. ex_id ex = x \<and> ex_category ex = c)"
      by (simp only: find_id_category [OF assms])
    finally show ?thesis using ws by blast
  qed
  have fb: "?fb = None \<longleftrightarrow>
      \<not> (\<exists>ex \<in> set exs. ex_id ex = x \<and> ex_category ex = c
           \<and> (\<exists>s \<in> set (ex_sessions ex). date_part (es_date s) = date_part d \<and> es_sets s \<noteq> []))"
    by (auto simp: findIndex_None_iff list_ex_iff)
  show ?thesis
    unfolding def using prim fb by (cases ?prim) auto
qed

lemma getMuscleGroupOrder_rank_aux:
  assumes "distinct (map ex_id exs)"
    and "eA \<in> set exs" and "eB \<in> set exs" and "eC \<in> set exs"
    and "ex_category eA = p" and "ex_category eB = p" and "ex_category eC = q"
    and "ex_id eA \<noteq> ex_id eB" and "p \<noteq> q"
    and "n < length wss"
    and "date_part (ws_startTime (wss ! n)) = date_part d"
    and "ws_exerciseIds (wss ! n) = [ex_id eA, ex_id eB, ex_id eC]"
  shows "((\<forall>m < n. date_part (ws_startTime (wss ! m)) = date_part d
              \<longrightarrow> ex_id eB \<notin> set (ws_exerciseIds (wss ! m)))
          \<longrightarrow> getMuscleGroupOrder (ex_id eB) p d wss exs = Some 2)
       \<and> ((\<forall>m < n. date_part (ws_startTime (wss ! m)) = date_part d
              \<longrightarrow> ex_id eC \<notin> set (ws_exerciseIds (wss ! m)))
          \<longrightarrow> getMuscleGroupOrder (ex_id eC) q d wss exs = Some 1)
       \<and> (\<forall>x c. getMuscleGroupOrder x c d wss exs = None \<longleftrightarrow>
            \<not> ((\<exists>ws \<in> set wss. date_part (ws_startTime ws) = date_part d
                    \<and> x \<in> set (ws_exerciseIds ws))
               \<and> (\<exists>ex \<in> set exs. ex_id ex = x \<and> ex_category ex = c))
            \<and> \<not> (\<exists>ex \<in> set exs. ex_id ex = x \<and> ex_category ex = c
                  \<and> (\<exists>s \<in> set (ex_sessions ex).
                        date_part (es_date s) = date_part d \<and> es_sets s \<noteq> [])))"
proof -
  have fA: "find (\<lambda>e. ex_id e = ex_id eA) exs = Some eA"
    and fB: "find (\<lambda>e. ex_id e = ex_id eB) exs = Some eB"
    and fC: "find (\<lambda>e. ex_id e = ex_id eC) exs = Some eC"
    using assms(1-4) by (simp_all add: find_distinct_id)
  have B: "getMuscleGroupOrder (ex_id eB) p d wss exs = Some 2"
    if "\<forall>m < n. date_part (ws_startTime (wss ! m)) = date_part d
          \<longrightarrow> ex_id eB \<notin> set (ws_exerciseIds (wss ! m))"
  proof -
    have "find (\<lambda>ws. date_part (ws_startTime ws) = date_part d \<and> ex_id eB \<in> set (ws_exerciseIds ws)) wss
        = Some (wss ! n)"
      using assms(10-12) that by (intro find_first_nth) auto
    moreover have "findIndex (\<lambda>i. i = ex_id eB)
           (filter (\<lambda>i. case find (\<lambda>e. ex_id e = i) exs of None \<Rightarrow> False
                        | Some ex \<Rightarrow> ex_category ex = p) (ws_exerciseIds (wss ! n))) = Some 1"
      using assms(5-9) by (simp add: assms(12) fA fB fC)
    ultimately show ?thesis
      using getMuscleGroupOrder_primary by fastforce
  qed
  have C: "getMuscleGroupOrder (ex_id eC) q d wss exs = Some 1"
    if "\<forall>m < n. date_part (ws_startTime (wss ! m)) = date_part d
          \<longrightarrow> ex_id eC \<notin> set (ws_exerciseIds (wss ! m))"
  proof -
    have "find (\<lambda>ws. date_part (ws_startTime ws) = date_part d \<and> ex_id eC \<in> set (ws_exerciseIds ws)) wss
        = Some (wss ! n)"
      using assms(10-12) that by (intro find_first_nth) auto
    moreover have "findIndex (\<lambda>i. i = ex_id eC)
           (filter (\<lambda>i. case find (\<lambda>e. ex_id e = i) exs of None \<Rightarrow> False
                        | Some ex \<Rightarrow> ex_category ex = q) (ws_exerciseIds (wss ! n))) = Some 0"
      using assms(5-9) by (simp add: assms(12) fA fB fC)
    ultimately show ?thesis
      using getMuscleGroupOrder_primary by fastforce
  qed
  have N: "getMuscleGroupOrder x c d wss exs = None \<longleftrightarrow>
            \<not> ((\<exists>ws \<in> set wss. date_part (ws_startTime ws) = date_part d
                    \<and> x \<in> set (ws_exerciseIds ws))
               \<and> (\<exists>ex \<in> set exs. ex_id ex = x \<and> ex_category ex = c))
            \<and> \<not> (\<exists>ex \<in> set exs. ex_id ex = x \<and> ex_category ex = c
                  \<and> (\<exists>s \<in> set (ex_sessions ex).
                        date_part (es_date s) = date_part d \<and> es_sets s \<noteq> []))" for x c
    using assms(1) by (rule getMuscleGroupOrder_None_iff)
  show ?thesis
  proof (intro conjI impI allI)
    show "getMuscleGroupOrder (ex_id eB) p d wss exs = Some 2"
      if "\<forall>m < n. date_part (ws_startTime (wss ! m)) = date_part d
          \<longrightarrow> ex_id eB \<notin> set (ws_exerciseIds (wss ! m))"
      using that by (rule B)
    show "getMuscleGroupOrder (ex_id eC) q d wss exs = Some 1"
      if "\<forall>m < n. date_part (ws_startTime (wss ! m)) = date_part d
          \<longrightarrow> ex_id eC \<notin> set (ws_exerciseIds (wss ! m))"
      using that by (rule C)
  qed (rule N)
qed

text \<open>
  C6 (as amended). Let the exercises have unique ids and let a workout session on
  the day of \<open>d\<close> list exactly \<open>[A, B, C]\<close>, where \<open>A\<close> and \<open>B\<close> are two exercises of
  one category and \<open>C\<close> is an exercise of another. When no earlier workout session of
  that day lists \<open>B\<close>, the order of \<open>B\<close> in its category is 2; when none lists \<open>C\<close>,
  the order of \<open>C\<close> in its category is 1. The result is none exactly when the exercise
  is located neither by the primary method (a workout session of that day lists it and
  the exercise has the category) nor by the fallback scan (the exercise has the category
  and a session with at least one set on that day).
\<close>

theorem getMuscleGroupOrder_rank:
  assumes "distinct (map ex_id exs)"
  shows "(eA \<in> set exs \<and> eB \<in> set exs \<and> eC \<in> set exs
          \<and> ex_category eA = p \<and> ex_category eB = p \<and> ex_category eC = q
          \<and> ex_id eA \<noteq> ex_id eB \<and> p \<noteq> q
          \<and> n < length wss
          \<and> date_part (ws_startTime (wss ! n)) = date_part d
          \<and> ws_exerciseIds (wss ! n) = [ex_id eA, ex_id eB, ex_id eC]
        \<longrightarrow> ((\<forall>m < n. date_part (ws_startTime (wss ! m)) = date_part d
                  \<longrightarrow> ex_id eB \<notin> set (ws_exerciseIds (wss ! m)))
              \<longrightarrow> getMuscleGroupOrder (ex_id eB) p d wss exs = Some 2)
            \<and> ((\<forall>m < n. date_part (ws_startTime (wss ! m)) = date_part d
                  \<longrightarrow> ex_id eC \<notin> set (ws_exerciseIds (wss ! m)))
              \<longrightarrow> getMuscleGroupOrder (ex_id eC) q d wss exs = Some 1))
       \<and> (\<forall>x c. getMuscleGroupOrder x c d wss exs = None \<longleftrightarrow>
            \<not> ((\<exists>ws \<in> set wss. date_part (ws_startTime ws) = date_part d
                    \<and> x \<in> set (ws_exerciseIds ws))
               \<and> (\<exists>ex \<in> set exs. ex_id ex = x \<and> ex_category ex = c))
            \<and> \<not> (\<exists>ex \<in> set exs. ex_id ex = x \<and> ex_category ex = c
                  \<and> (\<exists>s \<in> set (ex_sessions ex).
                        date_part (es_date s) = date_part d \<and> es_sets s \<noteq> [])))"
proof (rule conjI)
  show "eA \<in> set exs \<and> eB \<in> set exs \<and> eC \<in> set exs
          \<and> ex_category eA = p \<and> ex_category eB = p \<and> ex_category eC = q
          \<and> ex_id eA \<noteq> ex_id eB \<and> p \<noteq> q
          \<and> n < length wss
          \<and> date_part (ws_startTime (wss ! n)) = date_part d
          \<and> ws_exerciseIds (wss ! n) = [ex_id eA, ex_id eB, ex_id eC]
        \<longrightarrow> ((\<forall>m < n. date_part (ws_startTime (wss ! m)) = date_part d
                  \<longrightarrow> ex_id eB \<notin> set (ws_exerciseIds (wss ! m)))
              \<longrightarrow> getMuscleGroupOrder (ex_id eB) p d wss exs = Some 2)
            \<and> ((\<forall>m < n. date_part (ws_startTime (wss ! m)) = date_part d
                  \<longrightarrow> ex_id eC \<notin> set (ws_exerciseIds (wss ! m)))
              \<longrightarrow> getMuscleGroupOrder (ex_id eC) q d wss exs = Some 1)"
  proof
    assume h: "eA \<in> set exs \<and> eB \<in> set exs \<and> eC \<in> set exs
          \<and> ex_category eA = p \<and> ex_category eB = p \<and> ex_category eC = q
          \<and> ex_id eA \<noteq> ex_id eB \<and> p \<noteq> q
          \<and> n < length wss
          \<and> date_part (ws_startTime (wss ! n)) = date_part d
          \<and> ws_exerciseIds (wss ! n) = [ex_id eA, ex_id eB, ex_id eC]"
    then have a: "eA \<in> set exs" "eB \<in> set exs" "eC \<in> set exs"
      "ex_category eA = p" "ex_category eB = p" "ex_category eC = q"
      "ex_id eA \<noteq> ex_id eB" "p \<noteq> q" "n < length wss"
      "date_part (ws_startTime (wss ! n)) = date_part d"
      "ws_exerciseIds (wss ! n) = [ex_id eA, ex_id eB, ex_id eC]"
      by blast+
    note T = getMuscleGroupOrder_rank_aux [OF assms a]
    from T [THEN conjunct1] T [THEN conjunct2, THEN conjunct1]
    show "((\<forall>m < n. date_part (ws_startTime (wss ! m)) = date_part d
                  \<longrightarrow> ex_id eB \<notin> set (ws_exerciseIds (wss ! m)))
              \<longrightarrow> getMuscleGroupOrder (ex_id eB) p d wss exs = Some 2)
            \<and> ((\<forall>m < n. date_part (ws_startTime (wss ! m)) = date_part d
                  \<longrightarrow> ex_id eC \<notin> set (ws_exerciseIds (wss ! m)))
              \<longrightarrow> getMuscleGroupOrder (ex_id eC) q d wss exs = Some 1)"
      by (rule conjI)
  qed
next
  show "\<forall>x c. getMuscleGroupOrder x c d wss exs = None \<longleftrightarrow>
            \<not> ((\<exists>ws \<in> set wss. date_part (ws_startTime ws) = date_part d
                    \<and> x \<in> set (ws_exerciseIds ws))
               \<and> (\<exists>ex \<in> set exs. ex_id ex = x \<and> ex_category ex = c))
            \<and> \<not> (\<exists>ex \<in> set exs. ex_id ex = x \<and> ex_category ex = c
                  \<and> (\<exists>s \<in> set (ex_sessions ex).
                        date_part (es_date s) = date_part d \<and> es_sets s \<noteq> []))"
    by (intro allI) (rule getMuscleGroupOrder_None_iff [OF assms])
qed

theorem getMuscleGroupOrder_rank_witness:
  "getMuscleGroupOrder ''B'' ''Push'' ''2024-03-06T17:20:00.000Z''
     (workoutSessions demo_data) (exercises demo_data) = Some 2
   \<and> getMuscleGroupOrder ''C'' ''Pull'' ''2024-03-06T17:20:00.000Z''
     (workoutSessions demo_data) (exercises demo_data) = Some 1
   \<and> getMuscleGroupOrder ''C'' ''Push'' ''2024-03-06T17:20:00.000Z''
     (workoutSessions demo_data) (exercises demo_data) = None"
proof -
  let ?d = "''2024-03-06T17:20:00.000Z''"
  have h1: "distinct (map ex_id (exercises demo_data))"
    by (simp add: demo_data_def demo_exA_def demo_exB_def demo_exC_def)
  have prem: "demo_exA \<in> set (exercises demo_data) \<and> demo_exB \<in> set (exercises demo_data)
      \<and> demo_exC \<in> set (exercises demo_data)
      \<and> ex_category demo_exA = ''Push'' \<and> ex_category demo_exB = ''Push''
      \<and> ex_category demo_exC = ''Pull''
      \<and> ex_id demo_exA \<noteq> ex_id demo_exB \<and> ''Push'' \<noteq> ''Pull''
      \<and> 1 < length (workoutSessions demo_data)
      \<and> date_part (ws_startTime (workoutSessions demo_data ! 1)) = date_part ?d
      \<and> ws_exerciseIds (workoutSessions demo_data ! 1) =
          [ex_id demo_exA, ex_id demo_exB, ex_id demo_exC]"
    by (simp add: demo_data_def demo_w2_def demo_exA_def demo_exB_def demo_exC_def date_part_def)
  note T = getMuscleGroupOrder_rank [OF h1, where eA = demo_exA and eB = demo_exB
      and eC = demo_exC and p = "''Push''" and q = "''Pull''" and n = 1
      and wss = "workoutSessions demo_data" and d = ?d]
  from T [THEN conjunct1] prem
  have R: "((\<forall>m < 1. date_part (ws_startTime (workoutSessions demo_data ! m)) = date_part ?d
                  \<longrightarrow> ex_id demo_exB \<notin> set (ws_exerciseIds (workoutSessions demo_data ! m)))
              \<longrightarrow> getMuscleGroupOrder (ex_id demo_exB) ''Push'' ?d
                    (workoutSessions demo_data) (exercises demo_data) = Some 2)
            \<and> ((\<forall>m < 1. date_part (ws_startTime (workoutSessions demo_data ! m)) = date_part ?d
                  \<longrightarrow> ex_id demo_exC \<notin> set (ws_exerciseIds (workoutSessions demo_data ! m)))
              \<longrightarrow> getMuscleGroupOrder (ex_id demo_exC) ''Pull'' ?d
                    (workoutSessions demo_data) (exercises demo_data) = Some 1)"
    by (rule mp)
  have eB: "\<forall>m < 1. date_part (ws_startTime (workoutSessions demo_data ! m)) = date_part ?d
      \<longrightarrow> ex_id demo_exB \<notin> set (ws_exerciseIds (workoutSessions demo_data ! m))"
    by (simp add: demo_data_def demo_w1_def date_part_def)
  have eC: "\<forall>m < 1. date_part (ws_startTime (workoutSessions demo_data ! m)) = date_part ?d
      \<longrightarrow> ex_id demo_exC \<notin> set (ws_exerciseIds (workoutSessions demo_data ! m))"
    by (simp add: demo_data_def demo_w1_def date_part_def)
  from R [THEN conjunct1] eB
  have 1: "getMuscleGroupOrder (ex_id demo_exB) ''Push'' ?d
      (workoutSessions demo_data) (exercises demo_data) = Some 2"
    by (rule mp)
  from R [THEN conjunct2] eC
  have 2: "getMuscleGroupOrder (ex_id demo_exC) ''Pull'' ?d
      (workoutSessions demo_data) (exercises demo_data) = Some 1"
    by (rule mp)
  have 3: "getMuscleGroupOrder ''C'' ''Push'' ?d
      (workoutSessions demo_data) (exercises demo_data) = None"
    by code_simp
  from 1 2 3 show ?thesis
    by (simp add: demo_exB_def demo_exC_def)
qed

text \<open>
  C6 as stated fails when an earlier workout session of the same day lists the
  exercise: the order is taken from that session, here \<open>[B]\<close>, so \<open>B\<close> is first.
\<close>

theorem getMuscleGroupOrder_rank_counterexample:
  "demo_w2 \<in> set (workoutSessions twice_data)
   \<and> date_part (ws_startTime demo_w2) = date_part ''2024-03-06T17:20:00.000Z''
   \<and> ws_exerciseIds demo_w2 = [ex_id demo_exA, ex_id demo_exB, ex_id demo_exC]
   \<and> exercises twice_data = [demo_exA, demo_exB, demo_exC]
   \<and> ex_category demo_exA = ''Push'' \<and> ex_category demo_exB = ''Push''
   \<and> ex_category demo_exC = ''Pull''
   \<and> getMuscleGroupOrder (ex_id demo_exB) ''Push'' ''2024-03-06T17:20:00.000Z''
        (workoutSessions twice_data) (exercises twice_data) = Some 1
   \<and> getMuscleGroupOrder (ex_id demo_exB) ''Push'' ''2024-03-06T17:20:00.000Z''
        (workoutSessions twice_data) (exercises twice_data) \<noteq> Some 2"
  by (simp add: twice_data_def demo_data_def demo_w1_def demo_w2_def demo_w5_def
      demo_exA_def demo_exB_def demo_exC_def date_part_def getMuscleGroupOrder_def)

subsection \<open>getCurrentStreak\<close>

lemma weeksWithWorkouts_set:
  "\<forall>s \<in> set ds. getWeekKey api (Date_new api s) \<noteq> None \<Longrightarrow>
   \<exists>ws. weeksWithWorkouts api ds acc = Some ws
      \<and> set ws = set acc \<union> {k. \<exists>s \<in> set ds. getWeekKey api (Date_new api s) = Some k}"
proof (induction ds arbitrary: acc)
  case Nil
  then show ?case by simp
next
  case (Cons d ds)
  then obtain k where k: "getWeekKey api (Date_new api d) = Some k"
    by auto
  from Cons.prems have "\<forall>s \<in> set ds. getWeekKey api (Date_new api s) \<noteq> None"
    by simp
  from Cons.IH [OF this, of "set_add k acc"] obtain ws
    where ws: "weeksWithWorkouts api ds (set_add k acc) = Some ws"
      "set ws = set (set_add k acc) \<union> {k. \<exists>s \<in> set ds. getWeekKey api (Date_new api s) = Some k}"
    by blast
  have "weeksWithWorkouts api (d # ds) acc = Some ws"
    using k ws(1) by simp
  moreover have "set ws = set acc \<union> {k. \<exists>s \<in> set (d # ds). getWeekKey api (Date_new api s) = Some k}"
    using k ws(2) by (auto simp: set_set_add)
  ultimately show ?case by blast
qed

lemma streak_loop_from:
  assumes K: "\<forall>j < 52. \<exists>k. getWeekKey api (week_back api today j) = Some k"
  shows "1 \<le> i \<Longrightarrow> i \<le> 52 \<Longrightarrow>
    streak_loop api weeks i s (week_back api today i) =
      Some (s + length (takeWhile
        (\<lambda>j. \<exists>k. getWeekKey api (week_back api today j) = Some k \<and> k \<in> set weeks) [i..<52]))"
proof (induction "52 - i" arbitrary: i s)
  case 0
  then have "i = 52" by simp
  then show ?case
    by (simp add: streak_loop.simps [of api weeks 52])
next
  case (Suc n)
  then have i: "i < 52" by simp
  with K obtain k where k: "getWeekKey api (week_back api today i) = Some k"
    by blast
  have up: "[i..<52] = i # [Suc i..<52]"
    using i by (simp add: upt_conv_Cons)
  show ?case
  proof (cases "k \<in> set weeks")
    case True
    have "streak_loop api weeks i s (week_back api today i) =
        streak_loop api weeks (Suc i) (Suc s) (week_back api today (Suc i))"
      using i k True by (simp add: streak_loop.simps [of api weeks i])
    also have "\<dots> = Some (Suc s + length (takeWhile
        (\<lambda>j. \<exists>k. getWeekKey api (week_back api today j) = Some k \<and> k \<in> set weeks) [Suc i..<52]))"
      using Suc.hyps(2) i by (intro Suc.hyps(1)) auto
    finally show ?thesis
      using k True by (simp add: up)
  next
    case False
    have "streak_loop api weeks i s (week_back api today i) = Some s"
      using i k False Suc.prems(1) by (simp add: streak_loop.simps [of api weeks i])
    then show ?thesis
      using k False by (simp add: up)
  qed
qed

lemma streak_loop_start:
  assumes K: "\<forall>j < 52. \<exists>k. getWeekKey api (week_back api today j) = Some k"
  shows "streak_loop api weeks 0 0 today =
      Some ((if \<exists>k. getWeekKey api (week_back api today 0) = Some k \<and> k \<in> set weeks then 1 else 0)
        + length (takeWhile
            (\<lambda>j. \<exists>k. getWeekKey api (week_back api today j) = Some k \<and> k \<in> set weeks) [1..<52]))"
proof -
  from K obtain k where k: "getWeekKey api today = Some k"
    by force
  have step: "streak_loop api weeks 0 0 today =
      streak_loop api weeks 1 (if k \<in> set weeks then 1 else 0) (week_back api today 1)"
    using k by (simp add: streak_loop.simps [of api weeks 0])
  show ?thesis
    using k by (simp only: step streak_loop_from [OF K, of 1]) simp
qed

lemma getCurrentStreak_formula:
  assumes "\<forall>i < 52. getWeekKey api (week_back api today i) \<noteq> None"
    and "\<forall>s \<in> set (getUniqueWorkoutDates data). getWeekKey api (Date_new api s) \<noteq> None"
  shows "getCurrentStreak api today data =
      Some ((if week_has_workout api today data 0 then 1 else 0)
        + length (takeWhile (week_has_workout api today data) [1..<52]))"
proof (cases "getUniqueWorkoutDates data = []")
  case True
  then have "\<not> week_has_workout api today data j" for j
    by (simp add: week_has_workout_def)
  then have "takeWhile (week_has_workout api today data) [1..<52] = []"
    by (simp add: takeWhile_eq_Nil_iff upt_conv_Cons)
  with True \<open>\<not> week_has_workout api today data 0\<close> show ?thesis
    by (simp add: getCurrentStreak_def)
next
  case False
  from weeksWithWorkouts_set [OF assms(2), of "[]"] obtain ws
    where ws: "weeksWithWorkouts api (getUniqueWorkoutDates data) [] = Some ws"
      "set ws = {k. \<exists>s \<in> set (getUniqueWorkoutDates data). getWeekKey api (Date_new api s) = Some k}"
    by auto
  have K: "\<forall>j < 52. \<exists>k. getWeekKey api (week_back api today j) = Some k"
    using assms(1) by auto
  have hit: "(\<exists>k. getWeekKey api (week_back api today j) = Some k \<and> k \<in> set ws) =
      week_has_workout api today data j" if "j < 52" for j
  proof -
    from K that obtain k where "getWeekKey api (week_back api today j) = Some k"
      by blast
    then show ?thesis
      by (simp add: ws(2) week_has_workout_def image_iff) metis
  qed
  have tw: "takeWhile (\<lambda>j. \<exists>k. getWeekKey api (week_back api today j) = Some k \<and> k \<in> set ws) [Suc 0..<52] =
      takeWhile (week_has_workout api today data) [Suc 0..<52]"
    by (rule takeWhile_cong) (auto simp: hit)
  have "getCurrentStreak api today data = streak_loop api ws 0 0 today"
    using False ws(1) by (simp add: getCurrentStreak_def)
  also have "\<dots> = Some ((if \<exists>k. getWeekKey api (week_back api today 0) = Some k \<and> k \<in> set ws then 1 else 0)
        + length (takeWhile
            (\<lambda>j. \<exists>k. getWeekKey api (week_back api today j) = Some k \<and> k \<in> set ws) [1..<52]))"
    using K by (rule streak_loop_start)
  finally show ?thesis
    using hit [of 0] by (simp add: tw)
qed

lemma upt_1_52: "[1..<52] = 1 # 2 # 3 # [4..<52]"
  by (simp add: upt_conv_Cons)

text \<open>
  C4. When no week key raises (no date is invalid), the streak is: one for the current
  week if it has a workout, plus the number of consecutive earlier weeks with a workout,
  counted backwards from last week and stopping at the first week without one or after
  iteration 51. So it is at most 52; it is 3 when the week keys of the workout dates are
  exactly those of this week, last week and the week before, and not that of three weeks
  ago; it is 1 when they are exactly those of last week and of three weeks ago, and
  neither that of this week nor that of two weeks ago.
\<close>

theorem getCurrentStreak_walk:
  assumes "\<forall>i < 52. getWeekKey api (week_back api today i) \<noteq> None"
    and "\<forall>s \<in> set (getUniqueWorkoutDates data). getWeekKey api (Date_new api s) \<noteq> None"
  shows "getCurrentStreak api today data =
      Some ((if week_has_workout api today data 0 then 1 else 0)
        + length (takeWhile (week_has_workout api today data) [1..<52]))
    \<and> (\<exists>n \<le> 52. getCurrentStreak api today data = Some n)
    \<and> ((\<lambda>s. getWeekKey api (Date_new api s)) ` set (getUniqueWorkoutDates data) =
          {getWeekKey api (week_back api today 0), getWeekKey api (week_back api today 1),
           getWeekKey api (week_back api today 2)}
        \<and> getWeekKey api (week_back api today 3) \<notin>
          (\<lambda>s. getWeekKey api (Date_new api s)) ` set (getUniqueWorkoutDates data)
        \<longrightarrow> getCurrentStreak api today data = Some 3)
    \<and> ((\<lambda>s. getWeekKey api (Date_new api s)) ` set (getUniqueWorkoutDates data) =
          {getWeekKey api (week_back api today 1), getWeekKey api (week_back api today 3)}
        \<and> getWeekKey api (week_back api today 0) \<notin>
          (\<lambda>s. getWeekKey api (Date_new api s)) ` set (getUniqueWorkoutDates data)
        \<and> getWeekKey api (week_back api today 2) \<notin>
          (\<lambda>s. getWeekKey api (Date_new api s)) ` set (getUniqueWorkoutDates data)
        \<longrightarrow> getCurrentStreak api today data = Some 1)"
proof -
  let ?hit = "week_has_workout api today data"
  let ?W = "(\<lambda>s. getWeekKey api (Date_new api s)) ` set (getUniqueWorkoutDates data)"
  have F: "getCurrentStreak api today data =
      Some ((if ?hit 0 then 1 else 0) + length (takeWhile ?hit [1..<52]))"
    using assms by (rule getCurrentStreak_formula)
  have "length (takeWhile ?hit [1..<52]) \<le> length [1..<52::nat]"
    by (rule length_takeWhile_le)
  then have "(if ?hit 0 then 1 else 0) + length (takeWhile ?hit [1..<52]) \<le> 52"
    by simp
  with F have B: "\<exists>n \<le> 52. getCurrentStreak api today data = Some n"
    by blast
  have hit: "?hit j \<longleftrightarrow> getWeekKey api (week_back api today j) \<in> ?W" for j
    by (simp only: week_has_workout_def)
  have E3: "getCurrentStreak api today data = Some 3"
    if "?W = {getWeekKey api (week_back api today 0), getWeekKey api (week_back api today 1),
           getWeekKey api (week_back api today 2)}
        \<and> getWeekKey api (week_back api today 3) \<notin> ?W"
  proof -
    from that have "?hit 0" "?hit 1" "?hit 2" "\<not> ?hit 3"
      by (simp_all only: hit) blast+
    then show ?thesis
      by (simp only: F upt_1_52) simp
  qed
  have E1: "getCurrentStreak api today data = Some 1"
    if "?W = {getWeekKey api (week_back api today 1), getWeekKey api (week_back api today 3)}
        \<and> getWeekKey api (week_back api today 0) \<notin> ?W
        \<and> getWeekKey api (week_back api today 2) \<notin> ?W"
  proof -
    from that have "\<not> ?hit 0" "?hit 1" "\<not> ?hit 2"
      by (simp_all only: hit) blast+
    then show ?thesis
      by (simp only: F upt_1_52) simp
  qed
  show ?thesis
  proof (intro conjI impI)
    show "getCurrentStreak api today data =
      Some ((if ?hit 0 then 1 else 0) + length (takeWhile ?hit [1..<52]))"
      by (rule F)
    show "\<exists>n \<le> 52. getCurrentStreak api today data = Some n"
      by (rule B)
  qed (erule E3, erule E1)
qed

lemma utc_getWeekKey_valid: "getWeekKey utc_api (Some ms) \<noteq> None"
  by (simp add: getWeekKey_def getWeekStart_def utc_api_def utc_setDate_def utc_toISOString_def
      num_add_def Let_def split: prod.splits)

lemma utc_week_back_valid: "\<exists>ms'. week_back utc_api (Some ms) i = Some ms'"
proof (induction i)
  case 0
  then show ?case by simp
next
  case (Suc i)
  then obtain m where "week_back utc_api (Some ms) i = Some m"
    by blast
  then show ?case
    by (simp add: utc_api_def utc_setDate_def num_add_def split: prod.splits)
qed

lemma utc_walk_valid: "\<forall>i < 52. getWeekKey utc_api (week_back utc_api (Some ms) i) \<noteq> None"
proof (intro allI impI)
  fix i
  from utc_week_back_valid [of ms i] obtain m where "week_back utc_api (Some ms) i = Some m"
    by blast
  then show "getWeekKey utc_api (week_back utc_api (Some ms) i) \<noteq> None"
    by (simp only: utc_getWeekKey_valid not_False_eq_True)
qed

lemma demo_today_value: "demo_today = Some 1710927000000"
  by code_simp

lemma demo_week_keys:
  "getWeekKey utc_api (week_back utc_api demo_today 0) = Some ''2024-03-18''"
  "getWeekKey utc_api (week_back utc_api demo_today 1) = Some ''2024-03-11''"
  "getWeekKey utc_api (week_back utc_api demo_today 2) = Some ''2024-03-04''"
  "getWeekKey utc_api (week_back utc_api demo_today 3) = Some ''2024-02-26''"
  by code_simp+

lemma streak_data3_dates:
  "getUniqueWorkoutDates streak_data3 = [''2024-03-06'', ''2024-03-13'', ''2024-03-19'']"
  by code_simp

lemma streak_data1_dates:
  "getUniqueWorkoutDates streak_data1 = [''2024-02-28'', ''2024-03-12'']"
  by code_simp

lemma demo_date_keys:
  "getWeekKey utc_api (Date_new utc_api ''2024-03-06'') = Some ''2024-03-04''"
  "getWeekKey utc_api (Date_new utc_api ''2024-03-13'') = Some ''2024-03-11''"
  "getWeekKey utc_api (Date_new utc_api ''2024-03-19'') = Some ''2024-03-18''"
  "getWeekKey utc_api (Date_new utc_api ''2024-02-28'') = Some ''2024-02-26''"
  "getWeekKey utc_api (Date_new utc_api ''2024-03-12'') = Some ''2024-03-11''"
  by code_simp+

theorem getCurrentStreak_walk_witness:
  "getCurrentStreak utc_api demo_today streak_data3 = Some 3
   \<and> getCurrentStreak utc_api demo_today streak_data1 = Some 1"
proof -
  have K: "\<forall>i < 52. getWeekKey utc_api (week_back utc_api demo_today i) \<noteq> None"
    unfolding demo_today_value by (rule utc_walk_valid)
  have D3: "\<forall>s \<in> set (getUniqueWorkoutDates streak_data3).
      getWeekKey utc_api (Date_new utc_api s) \<noteq> None"
    by (simp add: streak_data3_dates demo_date_keys)
  have D1: "\<forall>s \<in> set (getUniqueWorkoutDates streak_data1).
      getWeekKey utc_api (Date_new utc_api s) \<noteq> None"
    by (simp add: streak_data1_dates demo_date_keys)
  have H3: "(\<lambda>s. getWeekKey utc_api (Date_new utc_api s)) ` set (getUniqueWorkoutDates streak_data3) =
          {getWeekKey utc_api (week_back utc_api demo_today 0),
           getWeekKey utc_api (week_back utc_api demo_today 1),
           getWeekKey utc_api (week_back utc_api demo_today 2)}
        \<and> getWeekKey utc_api (week_back utc_api demo_today 3) \<notin>
          (\<lambda>s. getWeekKey utc_api (Date_new utc_api s)) ` set (getUniqueWorkoutDates streak_data3)"
    by (simp only: demo_week_keys streak_data3_dates) (auto simp: demo_date_keys)
  have H1: "(\<lambda>s. getWeekKey utc_api (Date_new utc_api s)) ` set (getUniqueWorkoutDates streak_data1) =
          {getWeekKey utc_api (week_back utc_api demo_today 1),
           getWeekKey utc_api (week_back utc_api demo_today 3)}
        \<and> getWeekKey utc_api (week_back utc_api demo_today 0) \<notin>
          (\<lambda>s. getWeekKey utc_api (Date_new utc_api s)) ` set (getUniqueWorkoutDates streak_data1)
        \<and> getWeekKey utc_api (week_back utc_api demo_today 2) \<notin>
          (\<lambda>s. getWeekKey utc_api (Date_new utc_api s)) ` set (getUniqueWorkoutDates streak_data1)"
    by (simp only: demo_week_keys streak_data1_dates) (auto simp: demo_date_keys)
  from getCurrentStreak_walk [OF K D3, THEN conjunct2, THEN conjunct2, THEN conjunct1] H3
  have 3: "getCurrentStreak utc_api demo_today streak_data3 = Some 3"
    by (rule mp)
  from getCurrentStreak_walk [OF K D1, THEN conjunct2, THEN conjunct2, THEN conjunct2] H1
  have 1: "getCurrentStreak utc_api demo_today streak_data1 = Some 1"
    by (rule mp)
  from 3 1 show ?thesis ..
qed

subsection \<open>Sessions of an exercise\<close>

lemma getExercisePreviousSession_unchanged:
  "snd (getExercisePreviousSession timeOf todayDateStr exercise) = exercise"
  by (simp add: getExercisePreviousSession_def Let_def)

lemma getExercisePreviousSessions_unchanged:
  "snd (getExercisePreviousSessions timeOf todayDateStr exercise n) = exercise"
  by (simp add: getExercisePreviousSessions_def)

lemma getExerciseLastSession_sessions:
  "ex_sessions (snd (getExerciseLastSession timeOf exercise)) =
     sort_desc timeOf (ex_sessions exercise)"
  by (simp add: getExerciseLastSession_def Let_def sort_desc_def array_sort_def)

text \<open>
  C8 fails for \<open>getExerciseLastSession\<close>: the call sorts the exercise's own sessions
  array, so an exercise whose sessions are in the order they were logged (oldest first)
  is left with them newest first. The two sibling functions filter first and sort the
  copy, and leave the exercise as it was.
\<close>

theorem getExerciseLastSession_reorders:
  "map es_id (ex_sessions demo_exA) = [''s1'', ''s2'']
   \<and> map es_id (ex_sessions (snd (getExerciseLastSession utc_time demo_exA))) = [''s2'', ''s1'']
   \<and> snd (getExerciseLastSession utc_time demo_exA) \<noteq> demo_exA
   \<and> snd (getExercisePreviousSession utc_time ''2024-03-20'' demo_exA) = demo_exA
   \<and> snd (getExercisePreviousSessions utc_time ''2024-03-20'' demo_exA 3) = demo_exA"
proof -
  have t1: "utc_time ''2024-03-04T17:05:00.000Z'' = Some 1709571900000"
    and t2: "utc_time ''2024-03-06T17:05:00.000Z'' = Some 1709744700000"
    by code_simp+
  have a: "map es_id (ex_sessions demo_exA) = [''s1'', ''s2'']"
    by (simp add: demo_exA_def)
  have b: "map es_id (ex_sessions (snd (getExerciseLastSession utc_time demo_exA))) = [''s2'', ''s1'']"
    by (simp add: getExerciseLastSession_sessions sort_desc_def array_sort_def
        time_compare_def demo_exA_def t1 t2)
  from a b have c: "snd (getExerciseLastSession utc_time demo_exA) \<noteq> demo_exA"
    by auto
  from a b c show ?thesis
    by (simp only: getExercisePreviousSession_unchanged getExercisePreviousSessions_unchanged) simp
qed

section \<open>Properties of the storage helpers\<close>

lemma cleanOrphanedSessions_empty:
  "workoutSessions d = [] \<Longrightarrow> cleanOrphanedSessions d = d"
  by (simp add: cleanOrphanedSessions_def)

lemma cleanOrphanedSessions_nonempty:
  assumes "workoutSessions d \<noteq> []"
  shows "cleanOrphanedSessions d =
    d\<lparr>exercises := map (\<lambda>exercise. exercise\<lparr>ex_sessions :=
         filter (\<lambda>s. \<exists>w \<in> set (workoutSessions d).
                   truthy_str (ws_endTime w) \<and> date_part (ws_startTime w) = date_part (es_date s))
           (ex_sessions exercise)\<rparr>) (exercises d)\<rparr>"
proof -
  have "(x \<in> set (fold (\<lambda>session acc. if truthy_str (ws_endTime session)
                    then set_add (date_part (ws_startTime session)) acc else acc)
                 (workoutSessions d) [])) =
        (\<exists>w \<in> set (workoutSessions d). truthy_str (ws_endTime w) \<and> date_part (ws_startTime w) = x)" for x
    by (simp only: fold_cond_set_add) auto
  then show ?thesis
    using assms by (simp add: cleanOrphanedSessions_def)
qed

text \<open>
  C9. \<open>cleanOrphanedSessions\<close> returns a snapshot without workout sessions unchanged.
  On a snapshot with at least one workout session it leaves \<open>workoutSessions\<close> as it
  is and keeps, in every exercise, exactly the exercise sessions whose date portion is
  the start date of some workout session with a truthy \<open>endTime\<close>; where no \<open>endTime\<close>
  is the empty string, that is some workout session having an \<open>endTime\<close>.
\<close>

theorem cleanOrphanedSessions_contract:
  "(workoutSessions d = [] \<longrightarrow> cleanOrphanedSessions d = d)
   \<and> (workoutSessions d \<noteq> [] \<longrightarrow>
        workoutSessions (cleanOrphanedSessions d) = workoutSessions d
        \<and> length (exercises (cleanOrphanedSessions d)) = length (exercises d)
        \<and> (\<forall>i < length (exercises d).
              exercises (cleanOrphanedSessions d) ! i =
                (exercises d ! i)\<lparr>ex_sessions :=
                   filter (\<lambda>s. \<exists>w \<in> set (workoutSessions d).
                             truthy_str (ws_endTime w)
                             \<and> date_part (ws_startTime w) = date_part (es_date s))
                     (ex_sessions (exercises d ! i))\<rparr>))
   \<and> (workoutSessions d \<noteq> [] \<and> (\<forall>w \<in> set (workoutSessions d). ws_endTime w \<noteq> Some '''') \<longrightarrow>
        (\<forall>i < length (exercises d).
              exercises (cleanOrphanedSessions d) ! i =
                (exercises d ! i)\<lparr>ex_sessions :=
                   filter (\<lambda>s. \<exists>w \<in> set (workoutSessions d).
                             ws_endTime w \<noteq> None
                             \<and> date_part (ws_startTime w) = date_part (es_date s))
                     (ex_sessions (exercises d ! i))\<rparr>))"
proof (intro conjI impI allI)
  show "cleanOrphanedSessions d = d" if "workoutSessions d = []"
    using that by (rule cleanOrphanedSessions_empty)
next
  assume ne: "workoutSessions d \<noteq> []"
  show "workoutSessions (cleanOrphanedSessions d) = workoutSessions d"
    by (simp add: cleanOrphanedSessions_nonempty [OF ne])
  show "length (exercises (cleanOrphanedSessions d)) = length (exercises d)"
    by (simp add: cleanOrphanedSessions_nonempty [OF ne])
  fix i assume "i < length (exercises d)"
  then show "exercises (cleanOrphanedSessions d) ! i =
      (exercises d ! i)\<lparr>ex_sessions :=
         filter (\<lambda>s. \<exists>w \<in> set (workoutSessions d).
                   truthy_str (ws_endTime w) \<and> date_part (ws_startTime w) = date_part (es_date s))
           (ex_sessions (exercises d ! i))\<rparr>"
    by (simp add: cleanOrphanedSessions_nonempty [OF ne])
next
  fix i
  assume h: "workoutSessions d \<noteq> [] \<and> (\<forall>w \<in> set (workoutSessions d). ws_endTime w \<noteq> Some '''')"
    and i: "i < length (exercises d)"
  have "(\<exists>w \<in> set (workoutSessions d). truthy_str (ws_endTime w) \<and> date_part (ws_startTime w) = x) =
        (\<exists>w \<in> set (workoutSessions d). ws_endTime w \<noteq> None \<and> date_part (ws_startTime w) = x)" for x
    using h truthy_str_iff by blast
  then show "exercises (cleanOrphanedSessions d) ! i =
      (exercises d ! i)\<lparr>ex_sessions :=
         filter (\<lambda>s. \<exists>w \<in> set (workoutSessions d).
                   ws_endTime w \<noteq> None \<and> date_part (ws_startTime w) = date_part (es_date s))
           (ex_sessions (exercises d ! i))\<rparr>"
    using h i by (simp add: cleanOrphanedSessions_nonempty)
qed

theorem cleanOrphanedSessions_contract_witness:
  "workoutSessions bootstrap_like = []
   \<and> cleanOrphanedSessions bootstrap_like = bootstrap_like
   \<and> workoutSessions orphan_data \<noteq> []
   \<and> workoutSessions (cleanOrphanedSessions orphan_data) = [demo_w1, demo_w4]
   \<and> ex_sessions (exercises (cleanOrphanedSessions orphan_data) ! 0) =
       [\<lparr>es_id = ''s1'', es_date = ''2024-03-04T17:05:00.000Z'',
          es_sets = [\<lparr>reps = Finite 8 0, weight = Finite 60 0\<rparr>], es_note = None\<rparr>]"
proof -
  have e: "workoutSessions bootstrap_like = []"
    by (simp add: bootstrap_like_def)
  have ne: "workoutSessions orphan_data \<noteq> []"
    by (simp add: orphan_data_def)
  have h: "\<forall>w \<in> set (workoutSessions orphan_data). ws_endTime w \<noteq> Some ''''"
    by (simp add: orphan_data_def demo_w1_def demo_w4_def)
  have i: "0 < length (exercises orphan_data)"
    by (simp add: orphan_data_def demo_data_def)
  from cleanOrphanedSessions_contract [of bootstrap_like] e
  have 1: "cleanOrphanedSessions bootstrap_like = bootstrap_like"
    by blast
  from cleanOrphanedSessions_contract [of orphan_data] ne
  have 2: "workoutSessions (cleanOrphanedSessions orphan_data) = workoutSessions orphan_data"
    by blast
  from cleanOrphanedSessions_contract [of orphan_data] ne h i
  have 3: "exercises (cleanOrphanedSessions orphan_data) ! 0 =
      (exercises orphan_data ! 0)\<lparr>ex_sessions :=
         filter (\<lambda>s. \<exists>w \<in> set (workoutSessions orphan_data).
                   ws_endTime w \<noteq> None \<and> date_part (ws_startTime w) = date_part (es_date s))
           (ex_sessions (exercises orphan_data ! 0))\<rparr>"
    by blast
  have 4: "ex_sessions (exercises (cleanOrphanedSessions orphan_data) ! 0) =
       [\<lparr>es_id = ''s1'', es_date = ''2024-03-04T17:05:00.000Z'',
          es_sets = [\<lparr>reps = Finite 8 0, weight = Finite 60 0\<rparr>], es_note = None\<rparr>]"
    by (simp only: 3)
      (simp add: orphan_data_def demo_data_def demo_exA_def demo_w1_def demo_w4_def date_part_def)
  have 5: "workoutSessions orphan_data = [demo_w1, demo_w4]"
    by (simp add: orphan_data_def)
  from e 1 ne 2 4 5 show ?thesis
    by simp
qed

section \<open>Properties of import and export\<close>

lemma those_map_inverse:
  "(\<And>x. x \<in> set xs \<Longrightarrow> f (g x) = Some x) \<Longrightarrow> those (map (f \<circ> g) xs) = Some xs"
  by (induction xs) auto

lemma as_str_JStr: "as_str (Some (JStr s)) = Some s"
  by (simp add: as_str_def)

lemma as_num_JNum: "as_num (Some (JNum n)) = Some n"
  by (simp add: as_num_def)

lemma as_list_inverse:
  "(\<And>x. x \<in> set xs \<Longrightarrow> f (g x) = Some x) \<Longrightarrow> as_list f (Some (JArr (map g xs))) = Some xs"
  by (simp add: as_list_def those_map_inverse)

lemma as_Set_inverse: "as_Set (json_of_Set s) = Some s"
  by (simp add: as_Set_def json_of_Set_def as_num_JNum)

lemma as_ExerciseSession_inverse: "as_ExerciseSession (json_of_ExerciseSession s) = Some s"
  by (cases "es_note s")
    (simp_all add: as_ExerciseSession_def json_of_ExerciseSession_def as_str_JStr
      as_opt_str_def opt_field_def as_list_inverse as_Set_inverse)

lemma as_Exercise_inverse: "as_Exercise (json_of_Exercise e) = Some e"
  by (simp add: as_Exercise_def json_of_Exercise_def as_str_JStr
      as_list_inverse as_ExerciseSession_inverse)

lemma as_WorkoutSession_inverse: "as_WorkoutSession (json_of_WorkoutSession w) = Some w"
  by (cases "ws_endTime w"; cases "ws_isDwarfWorkout w")
    (simp_all add: as_WorkoutSession_def json_of_WorkoutSession_def as_str_JStr
      as_opt_str_def as_opt_bool_def opt_field_def as_list_inverse)

lemma as_WorkoutData_inverse: "as_WorkoutData (json_of_WorkoutData d) = Some d"
  by (simp add: as_WorkoutData_def json_of_WorkoutData_def
      as_list_inverse as_Exercise_inverse as_WorkoutSession_inverse)

lemma importData_accepts_iff:
  "(js_truthy v \<and> (case js_get v ''exercises'' of Inl e \<Rightarrow> False | Inr x \<Rightarrow> isArray x))
     \<longleftrightarrow> (\<exists>kvs xs. v = JObj kvs \<and> map_of kvs ''exercises'' = Some (JArr xs))"
proof (cases v)
  case (JObj kvs)
  show ?thesis
  proof (cases "map_of kvs ''exercises''")
    case None
    with JObj show ?thesis by simp
  next
    case (Some x)
    with JObj show ?thesis by (cases x) simp_all
  qed
qed simp_all

lemma importData_None_iff:
  "importData parse text = None \<longleftrightarrow>
     parse text = None
     \<or> (\<exists>v. parse text = Some v
          \<and> \<not> (\<exists>kvs xs. v = JObj kvs \<and> map_of kvs ''exercises'' = Some (JArr xs)))"
proof (cases "parse text")
  case None
  then show ?thesis by (simp add: importData_def)
next
  case (Some v)
  then show ?thesis
    by (simp add: importData_def importData_accepts_iff)
qed

lemma importData_Some:
  "parse text = Some v \<Longrightarrow> map_of kvs ''exercises'' = Some (JArr xs) \<Longrightarrow> v = JObj kvs \<Longrightarrow>
   importData parse text = Some v"
  by (simp add: importData_def)

subsection \<open>Reading back a text that was written\<close>

lemma digit_char_all:
  "list_all (\<lambda>k. digit_val (digit_char (int k)) = Some (int k)
      \<and> (digit_char (int k) = CHR ''0'' \<longleftrightarrow> k = 0)) [0..<10]"
  by code_simp

lemma digit_char_props:
  assumes "0 \<le> n" and "n < 10"
  shows "digit_val (digit_char n) = Some n" and "digit_char n = CHR ''0'' \<longleftrightarrow> n = 0"
proof -
  from assms have "nat n \<in> set [0..<10]" by simp
  with digit_char_all
  have "digit_val (digit_char (int (nat n))) = Some (int (nat n))
      \<and> (digit_char (int (nat n)) = CHR ''0'' \<longleftrightarrow> nat n = 0)"
    unfolding list_all_iff by blast
  with assms(1) show "digit_val (digit_char n) = Some n"
    and "digit_char n = CHR ''0'' \<longleftrightarrow> n = 0"
    by simp_all
qed

lemma digit_val_digit_char: "0 \<le> n \<Longrightarrow> n < 10 \<Longrightarrow> digit_val (digit_char n) = Some n"
  by (rule digit_char_props)

lemma is_digit_digit_char: "is_digit (digit_char n)"
proof -
  have "0 \<le> n mod 10" "n mod 10 < 10" by simp_all
  then have "digit_val (digit_char (n mod 10)) = Some (n mod 10)"
    by (rule digit_val_digit_char)
  moreover have "digit_char (n mod 10) = digit_char n"
    by (simp add: digit_char_def)
  ultimately show ?thesis by (simp add: is_digit_def)
qed

lemma is_digit_iff: "is_digit c \<longleftrightarrow> c \<in> set ''0123456789''"
  by (auto simp: is_digit_def digit_val_def)

lemma digit_char_zero_iff: "0 \<le> n \<Longrightarrow> n < 10 \<Longrightarrow> digit_char n = CHR ''0'' \<longleftrightarrow> n = 0"
  by (rule digit_char_props)

lemma dec_digits_digits: "\<forall>c \<in> set (dec_digits n). is_digit c"
  by (induction n rule: dec_digits.induct)
    (subst dec_digits.simps, simp add: is_digit_digit_char)

lemma dec_digits_nonempty: "dec_digits n \<noteq> []"
  by (subst dec_digits.simps) simp

lemma dec_val_append: "dec_val acc (xs @ ys) = dec_val (dec_val acc xs) ys"
  by (induction xs arbitrary: acc) simp_all

lemma dec_val_digit_char: "0 \<le> n \<Longrightarrow> n < 10 \<Longrightarrow> dec_val acc [digit_char n] = acc * 10 + n"
  by (simp add: digit_val_digit_char)

lemma dec_val_dec_digits:
  "0 \<le> n \<Longrightarrow> dec_val acc (dec_digits n) = acc * 10 ^ length (dec_digits n) + n"
proof (induction n arbitrary: acc rule: dec_digits.induct)
  case (1 n)
  show ?case
  proof (cases "n < 10")
    case True
    with "1.prems" show ?thesis
      by (subst (1 2) dec_digits.simps) (simp add: digit_val_digit_char)
  next
    case False
    with "1.prems" have ih: "dec_val acc (dec_digits (n div 10)) =
        acc * 10 ^ length (dec_digits (n div 10)) + n div 10"
      by (intro "1.IH") auto
    have d: "digit_val (digit_char (n mod 10)) = Some (n mod 10)"
      by (rule digit_val_digit_char) simp_all
    from False show ?thesis
      by (subst (1 2) dec_digits.simps) (simp add: dec_val_append ih d algebra_simps)
  qed
qed

lemma dec_val_zero: "dec_val 0 (dec_digits n) = n" if "0 \<le> n"
  using dec_val_dec_digits [OF that, of 0] by simp

lemma hd_dec_digits: "0 < n \<Longrightarrow> hd (dec_digits n) \<noteq> CHR ''0''"
proof (induction n rule: dec_digits.induct)
  case (1 n)
  show ?case
  proof (cases "n < 10")
    case True
    with "1.prems" show ?thesis
      by (subst dec_digits.simps) (simp add: digit_char_zero_iff)
  next
    case False
    then have "hd (dec_digits (n div 10)) \<noteq> CHR ''0''"
      by (intro "1.IH") auto
    with False show ?thesis
      by (subst dec_digits.simps) (simp add: dec_digits_nonempty)
  qed
qed

lemma last_dec_digits: "last (dec_digits n) = digit_char n"
  by (subst dec_digits.simps) (simp add: digit_char_def)

lemma last_dec_digits_nonzero:
  "0 \<le> n \<Longrightarrow> n mod 10 \<noteq> 0 \<Longrightarrow> last (dec_digits n) \<noteq> CHR ''0''"
proof -
  assume "0 \<le> n" "n mod 10 \<noteq> 0"
  have "digit_char n = digit_char (n mod 10)"
    by (simp add: digit_char_def)
  moreover have "digit_char (n mod 10) \<noteq> CHR ''0''"
    using \<open>n mod 10 \<noteq> 0\<close> by (subst digit_char_zero_iff) simp_all
  ultimately show ?thesis by (simp add: last_dec_digits)
qed

lemma not_digit_simps [simp]:
  "\<not> is_digit (CHR ''.'')" "\<not> is_digit (CHR ''e'')" "\<not> is_digit (CHR ''E'')"
  "\<not> is_digit (CHR ''-'')" "\<not> is_digit (CHR ''+'')" "is_digit (CHR ''0'')"
  by (simp_all add: is_digit_iff)

lemma digits_simps [simp]:
  "digits []" "digits (c # cs) \<longleftrightarrow> is_digit c \<and> digits cs"
  "digits (xs @ ys) \<longleftrightarrow> digits xs \<and> digits ys"
  by (auto simp: digits_def)

lemma digits_dec_digits [simp]: "digits (dec_digits n)"
  using dec_digits_digits by (simp add: digits_def)

lemma digits_replicate [simp]: "digits (replicate k (CHR ''0''))"
  by (simp add: digits_def)

lemma digits_take: "digits ds \<Longrightarrow> digits (take n ds)"
  by (auto simp: digits_def dest: in_set_takeD)

lemma digits_drop: "digits ds \<Longrightarrow> digits (drop n ds)"
  by (auto simp: digits_def dest: in_set_dropD)

lemma takeWhile_digits:
  assumes "digits ds" and "s = [] \<or> \<not> is_digit (hd s)"
  shows "takeWhile is_digit (ds @ s) = ds" and "dropWhile is_digit (ds @ s) = s"
proof -
  from assms(2) have "takeWhile is_digit s = []" "dropWhile is_digit s = s"
    by (cases s; auto)+
  with assms(1) show "takeWhile is_digit (ds @ s) = ds" "dropWhile is_digit (ds @ s) = s"
    by (simp_all add: digits_def takeWhile_append2 dropWhile_append2)
qed

lemma num_end_no_digit: "num_end s \<Longrightarrow> s = [] \<or> \<not> is_digit (hd s)"
  by (cases s) (simp_all add: num_end_def)

lemma read_fraction_none: "s = [] \<or> hd s \<noteq> CHR ''.'' \<Longrightarrow> read_fraction s = Some ([], s)"
  by (cases s) (simp_all add: read_fraction_def)

lemma read_fraction_some:
  assumes "digits fp" and "fp \<noteq> []" and "s = [] \<or> \<not> is_digit (hd s)"
  shows "read_fraction (CHR ''.'' # fp @ s) = Some (fp, s)"
  using assms by (simp add: read_fraction_def takeWhile_digits)

lemma read_exponent_none:
  "s = [] \<or> (hd s \<noteq> CHR ''e'' \<and> hd s \<noteq> CHR ''E'') \<Longrightarrow> read_exponent s = Some (0, s)"
  by (cases s) (auto simp: read_exponent_def)

lemma read_exponent_some:
  assumes "s = [] \<or> \<not> is_digit (hd s)"
  shows "read_exponent (''e'' @ (if x < 0 then ''-'' else ''+'') @ dec_digits \<bar>x\<bar> @ s) = Some (x, s)"
proof -
  have "takeWhile is_digit (dec_digits \<bar>x\<bar> @ s) = dec_digits \<bar>x\<bar>"
    "dropWhile is_digit (dec_digits \<bar>x\<bar> @ s) = s"
    using assms by (simp_all add: takeWhile_digits)
  moreover have "dec_val 0 (dec_digits \<bar>x\<bar>) = \<bar>x\<bar>"
    by (rule dec_val_zero) simp
  ultimately show ?thesis
    by (cases "x < 0") (simp_all add: read_exponent_def Let_def dec_digits_nonempty)
qed

lemma read_unsigned_parts:
  assumes "digits ip" and "ip \<noteq> []" and "length ip = 1 \<or> hd ip \<noteq> CHR ''0''"
    and "s1 = [] \<or> \<not> is_digit (hd s1)"
    and "read_fraction s1 = Some (fp, s2)"
    and "read_exponent s2 = Some (x, s3)"
  shows "read_unsigned (ip @ s1) = Some ((dec_val 0 (ip @ fp), x - int (length fp)), s3)"
proof -
  have "takeWhile is_digit (ip @ s1) = ip" "dropWhile is_digit (ip @ s1) = s1"
    using assms(1,4) by (simp_all add: takeWhile_digits)
  with assms(2,3,5,6) show ?thesis
    by (auto simp: read_unsigned_def Let_def)
qed

lemma dec_val_zeros: "dec_val acc (replicate k (CHR ''0'')) = acc * 10 ^ k"
  by (induction k arbitrary: acc) (simp_all add: digit_val_def)

lemma takeWhile_eq_replicate:
  "takeWhile (\<lambda>c. c = z) xs = replicate (length (takeWhile (\<lambda>c. c = z) xs)) z"
  by (induction xs) simp_all

lemma strip_zeros_decomp:
  "\<exists>k. ds = strip_zeros ds @ replicate k (CHR ''0'')"
proof -
  let ?P = "\<lambda>c. c = CHR ''0''"
  have "ds = rev (takeWhile ?P (rev ds) @ dropWhile ?P (rev ds))"
    by (simp only: takeWhile_dropWhile_id rev_rev_ident)
  also have "\<dots> = rev (dropWhile ?P (rev ds)) @ rev (takeWhile ?P (rev ds))"
    by (rule rev_append)
  finally have "ds = strip_zeros ds @ rev (takeWhile ?P (rev ds))"
    by (simp only: strip_zeros_def)
  moreover have "rev (takeWhile ?P (rev ds)) = replicate (length (takeWhile ?P (rev ds))) (CHR ''0'')"
    by (subst takeWhile_eq_replicate) simp
  ultimately have "ds = strip_zeros ds @ replicate (length (takeWhile ?P (rev ds))) (CHR ''0'')"
    by simp
  then show ?thesis ..
qed

lemma strip_zeros_value:
  "dec_val 0 (strip_zeros ds) * 10 ^ (length ds - length (strip_zeros ds)) = dec_val 0 ds"
proof -
  obtain k where k: "ds = strip_zeros ds @ replicate k (CHR ''0'')"
    using strip_zeros_decomp by blast
  have "length (strip_zeros ds @ replicate k (CHR ''0'')) = length (strip_zeros ds) + k"
    by simp
  with k have "length ds = length (strip_zeros ds) + k"
    by simp
  then have "length ds - length (strip_zeros ds) = k" by simp
  moreover have "dec_val 0 ds = dec_val 0 (strip_zeros ds) * 10 ^ k"
    by (subst k) (simp add: dec_val_append dec_val_zeros)
  ultimately show ?thesis by simp
qed

lemma strip_zeros_length: "length (strip_zeros ds) \<le> length ds"
  using length_dropWhile_le [of "\<lambda>c. c = CHR ''0''" "rev ds"] by (simp add: strip_zeros_def)

lemma digits_strip_zeros: "digits ds \<Longrightarrow> digits (strip_zeros ds)"
  by (auto simp: digits_def strip_zeros_def dest: set_dropWhileD)

lemma strip_zeros_Cons:
  assumes "c \<noteq> CHR ''0''"
  shows "\<exists>cs'. strip_zeros (c # cs) = c # cs'"
proof -
  obtain k where k: "c # cs = strip_zeros (c # cs) @ replicate k (CHR ''0'')"
    using strip_zeros_decomp by blast
  show ?thesis
  proof (cases "strip_zeros (c # cs)")
    case Nil
    with k have "c # cs = replicate k (CHR ''0'')" by simp
    then have "c \<in> set (replicate k (CHR ''0''))" by (cases k) simp_all
    with assms show ?thesis by simp
  next
    case (Cons x xs)
    with k show ?thesis by simp
  qed
qed

lemma num_end_hd:
  "num_end s \<Longrightarrow> s = [] \<or> hd s \<noteq> CHR ''.''"
  "num_end s \<Longrightarrow> s = [] \<or> (hd s \<noteq> CHR ''e'' \<and> hd s \<noteq> CHR ''E'')"
  by (cases s; simp add: num_end_def)+

lemma read_unsigned_zero:
  assumes "num_end s"
  shows "read_unsigned (''0'' @ s) = Some ((0, 0), s)"
proof -
  have "read_unsigned (''0'' @ s) = Some ((dec_val 0 (''0'' @ []), 0 - int (length ([] :: string))), s)"
    using assms
    by (intro read_unsigned_parts [where ?s2.0 = s])
       (simp_all add: num_end_no_digit read_fraction_none read_exponent_none num_end_hd)
  then show ?thesis by (simp add: digit_val_def)
qed

lemma read_unsigned_integer:
  assumes "0 < a" and "num_end s"
  shows "read_unsigned (dec_digits a @ s) = Some ((a, 0), s)"
proof -
  have "read_unsigned (dec_digits a @ s) =
      Some ((dec_val 0 (dec_digits a @ []), 0 - int (length ([] :: string))), s)"
    using assms
    by (intro read_unsigned_parts [where ?s2.0 = s])
       (simp_all add: num_end_no_digit read_fraction_none read_exponent_none num_end_hd
          dec_digits_nonempty hd_dec_digits)
  with assms(1) show ?thesis by (simp add: dec_val_zero)
qed

lemma read_unsigned_exp:
  assumes "digits (c # cs)" and "num_end s"
  shows "read_unsigned (exp_text (c # cs) n @ s) =
    Some ((dec_val 0 (c # cs), n - 1 - int (length cs)), s)"
proof -
  let ?e = "''e'' @ (if n - 1 < 0 then ''-'' else ''+'') @ dec_digits \<bar>n - 1\<bar> @ s"
  have e: "read_exponent ?e = Some (n - 1, s)"
    using assms(2) by (intro read_exponent_some) (rule num_end_no_digit)
  show ?thesis
  proof (cases "cs = []")
    case True
    have "read_unsigned ([c] @ ?e) = Some ((dec_val 0 ([c] @ []), n - 1 - int (length ([] :: string))), s)"
      using assms(1) e by (intro read_unsigned_parts [where ?s2.0 = ?e]) (simp_all add: read_fraction_none)
    with True show ?thesis by (simp add: exp_text_def)
  next
    case False
    have f: "read_fraction (CHR ''.'' # cs @ ?e) = Some (cs, ?e)"
      using assms(1) False by (intro read_fraction_some) simp_all
    have "read_unsigned ([c] @ CHR ''.'' # cs @ ?e) = Some ((dec_val 0 ([c] @ cs), n - 1 - int (length cs)), s)"
      using assms(1) e f by (intro read_unsigned_parts [where ?s2.0 = ?e]) simp_all
    with False show ?thesis by (simp add: exp_text_def)
  qed
qed

lemma read_unsigned_point:
  assumes "0 < a" and "0 < k" and "k < length (dec_digits a)" and "num_end s"
  shows "read_unsigned (take k (dec_digits a) @ ''.'' @ drop k (dec_digits a) @ s) =
    Some ((a, - int (length (dec_digits a) - k)), s)"
proof -
  let ?ds = "dec_digits a"
  have hd: "hd (take k ?ds) \<noteq> CHR ''0''"
    using assms(1,2) hd_dec_digits [of a] by (cases ?ds; cases k) simp_all
  have f: "read_fraction (CHR ''.'' # drop k ?ds @ s) = Some (drop k ?ds, s)"
    using assms(3,4) by (intro read_fraction_some) (simp_all add: digits_drop num_end_no_digit)
  have e: "read_exponent s = Some (0, s)"
    using assms(4) by (simp add: read_exponent_none num_end_hd)
  have "read_unsigned (take k ?ds @ CHR ''.'' # drop k ?ds @ s) =
      Some ((dec_val 0 (take k ?ds @ drop k ?ds), 0 - int (length (drop k ?ds))), s)"
    using assms(2,3) hd f e
    by (intro read_unsigned_parts [where ?s2.0 = s])
       (simp_all add: digits_take dec_digits_nonempty)
  with assms(1) show ?thesis by (simp add: dec_val_zero)
qed

lemma read_unsigned_small:
  assumes "0 < a" and "num_end s"
  shows "read_unsigned (''0.'' @ replicate k (CHR ''0'') @ dec_digits a @ s) =
    Some ((a, - int (k + length (dec_digits a))), s)"
proof -
  let ?fp = "replicate k (CHR ''0'') @ dec_digits a"
  have f: "read_fraction (CHR ''.'' # ?fp @ s) = Some (?fp, s)"
    using assms(2) by (intro read_fraction_some) (simp_all add: dec_digits_nonempty num_end_no_digit)
  have e: "read_exponent s = Some (0, s)"
    using assms(2) by (simp add: read_exponent_none num_end_hd)
  have "read_unsigned (''0'' @ CHR ''.'' # ?fp @ s) =
      Some ((dec_val 0 (''0'' @ ?fp), 0 - int (length ?fp)), s)"
    using f e by (intro read_unsigned_parts [where ?s2.0 = s]) simp_all
  moreover have "dec_val 0 (''0'' @ ?fp) = a"
    using assms(1) by (simp add: dec_val_append dec_val_zeros dec_val_zero digit_val_def)
  ultimately show ?thesis by simp
qed

lemma num_norm_id: "d = 0 \<or> m mod 10 \<noteq> 0 \<Longrightarrow> num_norm m d = (m, d)"
  by (cases d) auto

lemma mod10_minus: "(a :: int) mod 10 \<noteq> 0 \<Longrightarrow> (- a) mod 10 \<noteq> 0"
  by presburger

lemma make_number_fraction:
  assumes "0 < d" and "a mod 10 \<noteq> 0"
  shows "make_number a (- int d) = Finite a d" and "make_number (- a) (- int d) = Finite (- a) d"
  using assms by (simp_all add: make_number_def num_norm_id mod10_minus)

lemma make_number_integer:
  "make_number a (int k) = Finite (a * 10 ^ k) 0"
  by (simp add: make_number_def)

lemma num_norm_zero: "num_norm 0 d = (0, 0)"
  by (induction d) simp_all

lemma make_number_zero: "make_number 0 ex = Finite 0 0"
  by (simp add: make_number_def num_norm_zero)

text \<open>Reading back what \<open>Number::toString\<close> wrote.\<close>

lemma read_unsigned_text:
  assumes a: "0 < a" and nf: "d = 0 \<or> a mod 10 \<noteq> 0" and s: "num_end s"
  shows "\<exists>a' ex. read_unsigned (unsigned_text a d @ s) = Some ((a', ex), s) \<and>
    make_number a' ex = Finite a d \<and> make_number (- a') ex = Finite (- a) d"
proof -
  let ?ds = "dec_digits a"
  let ?n = "int (length ?ds) - int d"
  have len: "0 < length ?ds" by (simp add: dec_digits_nonempty)
  consider (A) "d = 0" "?n \<le> 21" | (A') "d = 0" "\<not> ?n \<le> 21"
    | (B) "0 < d" "0 < ?n" "?n \<le> 21" | (C) "0 < d" "- 6 < ?n" "?n \<le> 0"
    | (D) "0 < d" "\<not> (0 < ?n \<and> ?n \<le> 21)" "\<not> (- 6 < ?n \<and> ?n \<le> 0)"
    by linarith
  then show ?thesis
  proof cases
    case A
    then have "unsigned_text a d = ?ds"
      using a by (simp add: unsigned_text_def Let_def)
    with A a s show ?thesis
      using read_unsigned_integer [of a s] make_number_integer [of a 0] make_number_integer [of "- a" 0]
      by simp
  next
    case A'
    obtain c cs where ds: "?ds = c # cs"
      using len by (cases ?ds) simp_all
    with a have "c \<noteq> CHR ''0''"
      using hd_dec_digits [of a] by simp
    then obtain cs' where sz: "strip_zeros ?ds = c # cs'"
      using strip_zeros_Cons [of c cs] ds by auto
    let ?k = "length ?ds - length (strip_zeros ?ds)"
    have le: "length (strip_zeros ?ds) \<le> length ?ds"
      by (rule strip_zeros_length)
    have tx: "unsigned_text a d = exp_text (c # cs') ?n"
      using a A' sz by (simp add: unsigned_text_def Let_def)
    have dg: "digits (c # cs')"
      using digits_strip_zeros [of ?ds] sz by simp
    have "read_unsigned (exp_text (c # cs') ?n @ s) =
        Some ((dec_val 0 (c # cs'), ?n - 1 - int (length cs')), s)"
      using dg s by (rule read_unsigned_exp)
    moreover have "?n - 1 - int (length cs') = int ?k"
      using A'(1) sz le by simp
    moreover have "dec_val 0 (c # cs') * 10 ^ ?k = a"
      using strip_zeros_value [of ?ds] sz a by (simp add: dec_val_zero)
    ultimately show ?thesis
      using tx A'(1) make_number_integer [of "dec_val 0 (c # cs')" ?k]
        make_number_integer [of "- dec_val 0 (c # cs')" ?k]
      by (intro exI [of _ "dec_val 0 (c # cs')"] exI [of _ "int ?k"]) simp
  next
    case B
    with nf have m: "a mod 10 \<noteq> 0" by simp
    let ?k = "nat ?n"
    have k: "0 < ?k" "?k < length ?ds" "length ?ds - ?k = d"
      using B by simp_all
    have tx: "unsigned_text a d = take ?k ?ds @ ''.'' @ drop ?k ?ds"
      using a B by (simp add: unsigned_text_def Let_def)
    have "read_unsigned (take ?k ?ds @ ''.'' @ drop ?k ?ds @ s) =
        Some ((a, - int (length ?ds - ?k)), s)"
      using a k(1,2) s by (rule read_unsigned_point)
    with tx k(3) show ?thesis
      using make_number_fraction [OF B(1) m]
      by (intro exI [of _ a] exI [of _ "- int d"]) simp
  next
    case C
    with nf have m: "a mod 10 \<noteq> 0" by simp
    let ?k = "nat (- ?n)"
    have k: "?k + length ?ds = d"
      using C by simp
    have tx: "unsigned_text a d = ''0.'' @ replicate ?k (CHR ''0'') @ ?ds"
      using a C by (simp add: unsigned_text_def Let_def)
    have "read_unsigned (''0.'' @ replicate ?k (CHR ''0'') @ ?ds @ s) =
        Some ((a, - int (?k + length ?ds)), s)"
      using a s by (rule read_unsigned_small)
    with tx k show ?thesis
      using make_number_fraction [OF C(1) m]
      by (intro exI [of _ a] exI [of _ "- int d"]) simp
  next
    case D
    with nf have m: "a mod 10 \<noteq> 0" by simp
    obtain c cs where ds: "?ds = c # cs"
      using len by (cases ?ds) simp_all
    from a D(1) have nz: "a \<noteq> 0" "d \<noteq> 0" by simp_all
    have "unsigned_text a d = exp_text ?ds ?n"
      by (simp only: unsigned_text_def Let_def nz D(2,3) if_False)
    then have tx: "unsigned_text a d = exp_text (c # cs) ?n"
      by (simp only: ds)
    have dg: "digits (c # cs)"
      using digits_dec_digits [of a] ds by simp
    have "read_unsigned (exp_text (c # cs) ?n @ s) =
        Some ((dec_val 0 (c # cs), ?n - 1 - int (length cs)), s)"
      using dg s by (rule read_unsigned_exp)
    moreover have "?n - 1 - int (length cs) = - int d"
      using ds by simp
    moreover have "dec_val 0 (c # cs) = a"
      using dec_val_zero [of a] a ds by simp
    ultimately show ?thesis
      using tx make_number_fraction [OF D(1) m]
      by (intro exI [of _ a] exI [of _ "- int d"]) simp
  qed
qed

lemma unsigned_text_start:
  assumes "0 \<le> a"
  shows "\<exists>c r. unsigned_text a d = c # r \<and> is_digit c"
proof (cases "a = 0")
  case True
  then show ?thesis by (simp add: unsigned_text_def)
next
  case False
  with assms have a: "0 < a" by simp
  let ?ds = "dec_digits a"
  obtain c cs where ds: "?ds = c # cs"
    using dec_digits_nonempty [of a] by (cases ?ds) simp_all
  have c: "is_digit c" "c \<noteq> CHR ''0''"
    using digits_dec_digits [of a] hd_dec_digits [of a] a ds by simp_all
  obtain cs' where sz: "strip_zeros ?ds = c # cs'"
    using strip_zeros_Cons [of c cs] ds c(2) by auto
  have e: "\<exists>r. exp_text (c # xs) n = c # r" for xs n
    by (simp add: exp_text_def)
  have t: "0 < k \<Longrightarrow> \<exists>r. take k (c # cs) @ ys = c # r" for k ys
    by (cases k) simp_all
  let ?n = "int (length ?ds) - int d"
  consider (A) "d = 0" "?n \<le> 21" | (A') "d = 0" "\<not> ?n \<le> 21"
    | (B) "0 < d" "0 < ?n" "?n \<le> 21" | (C) "0 < d" "\<not> (0 < ?n \<and> ?n \<le> 21)" "- 6 < ?n" "?n \<le> 0"
    | (D) "0 < d" "\<not> (0 < ?n \<and> ?n \<le> 21)" "\<not> (- 6 < ?n \<and> ?n \<le> 0)"
    by linarith
  then show ?thesis
  proof cases
    case A
    with a have "unsigned_text a d = c # cs"
      by (simp add: unsigned_text_def Let_def ds)
    with c(1) show ?thesis by simp
  next
    case A'
    with a have "unsigned_text a d = exp_text (c # cs') ?n"
      by (simp add: unsigned_text_def Let_def sz)
    with c(1) e [of cs' ?n] show ?thesis by auto
  next
    case B
    with a have "unsigned_text a d = take (nat ?n) (c # cs) @ ''.'' @ drop (nat ?n) ?ds"
      by (simp add: unsigned_text_def Let_def ds)
    moreover from B have "0 < nat ?n" by simp
    ultimately show ?thesis
      using c(1) t [of "nat ?n" "''.'' @ drop (nat ?n) ?ds"] by auto
  next
    case C
    with a have "unsigned_text a d = ''0.'' @ replicate (nat (- ?n)) (CHR ''0'') @ ?ds"
      by (simp add: unsigned_text_def Let_def)
    then show ?thesis by simp
  next
    case D
    from a D(1) have nz: "a \<noteq> 0" "d \<noteq> 0" by simp_all
    have "unsigned_text a d = exp_text ?ds ?n"
      by (simp only: unsigned_text_def Let_def nz D(2,3) if_False)
    then have "unsigned_text a d = exp_text (c # cs) ?n"
      by (simp only: ds)
    with c(1) e [of cs ?n] show ?thesis by auto
  qed
qed

lemma read_number_text:
  assumes "decimal_number (Finite m d)" and "num_end s"
  shows "read_number (finite_text m d @ s) = Some (Finite m d, s)"
proof -
  from assms(1) have nf: "d = 0 \<or> m mod 10 \<noteq> 0"
    by (simp add: decimal_number_def)
  consider (neg) "m < 0" | (zero) "m = 0" | (pos) "0 < m" by linarith
  then show ?thesis
  proof cases
    case neg
    then have a: "0 < - m" by simp
    from nf have "d = 0 \<or> (- m) mod 10 \<noteq> 0"
      using mod10_minus [of m] by auto
    from read_unsigned_text [OF a this assms(2)]
    obtain a' ex where r: "read_unsigned (unsigned_text (- m) d @ s) = Some ((a', ex), s)"
      and v: "make_number (- a') ex = Finite (- (- m)) d" by blast
    from v neg have "a' \<noteq> 0"
      using make_number_zero [of ex] by auto
    moreover from neg have "finite_text m d @ s = CHR ''-'' # unsigned_text (- m) d @ s"
      by (simp add: finite_text_def)
    ultimately show ?thesis using r v by (simp add: read_number_def)
  next
    case zero
    with nf have d: "d = 0" by simp
    have "read_unsigned (''0'' @ s) = Some ((0, 0), s)"
      using assms(2) by (rule read_unsigned_zero)
    with zero d show ?thesis
      by (simp add: read_number_def finite_text_def unsigned_text_def make_number_def)
  next
    case pos
    from read_unsigned_text [OF pos nf assms(2)]
    obtain a' ex where r: "read_unsigned (unsigned_text m d @ s) = Some ((a', ex), s)"
      and v: "make_number a' ex = Finite m d" by blast
    obtain c t where c: "unsigned_text m d = c # t" "is_digit c"
      using unsigned_text_start [of m d] pos by auto
    then have "c \<noteq> CHR ''-''" by auto
    with pos r v c(1) show ?thesis
      by (simp add: read_number_def finite_text_def)
  qed
qed

lemma finite_text_start:
  "\<exists>c r. finite_text m d = c # r \<and> (c = CHR ''-'' \<or> is_digit c)"
proof (cases "m < 0")
  case True
  then show ?thesis by (simp add: finite_text_def)
next
  case False
  then obtain c t where "unsigned_text \<bar>m\<bar> d = c # t" "is_digit c"
    using unsigned_text_start [of "\<bar>m\<bar>" d] by auto
  with False show ?thesis by (simp add: finite_text_def)
qed

lemma hex_val_hex_char_all: "list_all (\<lambda>x. hex_val (hex_char x) = Some x) [0..<16]"
  by code_simp

lemma hex_val_hex_char: "x < 16 \<Longrightarrow> hex_val (hex_char x) = Some x"
  using hex_val_hex_char_all by (simp add: list_all_iff)

lemma hex_val_zero: "hex_val (CHR ''0'') = Some 0"
  by (simp add: hex_val_def)

lemma char_of_div_mod: "char_of ((of_char c div 16) * 16 + of_char c mod 16 :: nat) = c"
  by simp

lemma string_body_quote_char:
  "string_body (quote_char c @ t) = map_option (\<lambda>(s, r). (c # s, r)) (string_body t)"
proof -
  let ?n = "of_char c :: nat"
  consider (esc) "c = dquote \<or> c = backslash \<or> c = CHR 0x08 \<or> c = CHR 0x09 \<or> c = CHR 0x0A
      \<or> c = CHR 0x0C \<or> c = CHR 0x0D"
    | (ctl) "c \<noteq> dquote" "c \<noteq> backslash" "c \<noteq> CHR 0x08" "c \<noteq> CHR 0x09" "c \<noteq> CHR 0x0A"
        "c \<noteq> CHR 0x0C" "c \<noteq> CHR 0x0D" "?n < 32"
    | (plain) "c \<noteq> dquote" "c \<noteq> backslash" "c \<noteq> CHR 0x08" "c \<noteq> CHR 0x09" "c \<noteq> CHR 0x0A"
        "c \<noteq> CHR 0x0C" "c \<noteq> CHR 0x0D" "\<not> ?n < 32"
    by blast
  then show ?thesis
  proof cases
    case esc
    then show ?thesis
      by (elim disjE) (simp_all add: quote_char_def unescape_def)
  next
    case ctl
    have q: "quote_char c = [backslash, CHR ''u'', CHR ''0'', CHR ''0'',
        hex_char (?n div 16), hex_char (?n mod 16)]"
      using ctl by (simp add: quote_char_def)
    have h: "hex_val (hex_char (?n div 16)) = Some (?n div 16)"
      "hex_val (hex_char (?n mod 16)) = Some (?n mod 16)"
      using ctl(8) by (simp_all add: hex_val_hex_char)
    have v: "((0 * 16 + 0) * 16 + ?n div 16) * 16 + ?n mod 16 = ?n"
      by simp
    have lt: "?n < 256"
      using ctl(8) by simp
    show ?thesis
      unfolding q by (simp add: hex_val_zero h lt del: of_char_mod_256 mod_div_mult_eq div_mult_mod_eq)
  next
    case plain
    then show ?thesis by (simp add: quote_char_def)
  qed
qed

lemma string_body_quoted:
  "string_body (concat (map quote_char s) @ dquote # t) = Some (s, t)"
  by (induction s) (simp_all add: string_body_quote_char)

lemma read_json_quote:
  "json_quote s @ t = dquote # concat (map quote_char s) @ dquote # t"
  by (simp add: json_quote_def)

lemma is_digit_value_start: "is_digit c \<Longrightarrow> value_start c"
  by (auto simp: is_digit_iff value_start_def is_ws_def)

lemma skip_ws_start: "\<not> is_ws c \<Longrightarrow> skip_ws (c # r) = c # r"
  by (simp add: skip_ws_def)

lemma skip_ws_indent: "\<not> is_ws c \<Longrightarrow> skip_ws (newline # indent j @ c # r) = c # r"
  by (simp add: skip_ws_def indent_def is_ws_def dropWhile_append3)

lemma skip_ws_space: "\<not> is_ws c \<Longrightarrow> skip_ws (CHR '' '' # c # r) = c # r"
  by (simp add: skip_ws_def is_ws_def)

lemma json_text_start: "\<exists>c r. json_text i v = c # r \<and> value_start c"
proof (cases v)
  case (JNum x)
  show ?thesis
  proof (cases x)
    case (Finite m d)
    obtain m' d' where n: "num_norm m d = (m', d')" by (cases "num_norm m d")
    obtain c r where "finite_text m' d' = c # r" "c = CHR ''-'' \<or> is_digit c"
      using finite_text_start by blast
    moreover from this(2) have "value_start c"
      using is_digit_value_start by (auto simp: value_start_def is_ws_def)
    ultimately show ?thesis
      using JNum Finite n by (simp add: number_json_def)
  qed (simp_all add: JNum number_json_def value_start_def is_ws_def)
next
  case (JArr es)
  then show ?thesis by (cases es) (simp_all add: value_start_def is_ws_def)
next
  case (JObj kvs)
  then show ?thesis by (cases kvs) (auto simp: value_start_def is_ws_def)
qed (simp_all add: value_start_def is_ws_def json_quote_def)

lemma read_value_empty_array: "read_value (Suc f) (''[]'' @ s) = Some (JArr [], s)"
  by (simp add: skip_ws_def is_ws_def)

lemma read_value_empty_object: "read_value (Suc f) (''{}'' @ s) = Some (JObj [], s)"
  by (simp add: skip_ws_def is_ws_def)

lemma read_value_array:
  assumes "value_start c"
  shows "read_value (Suc f) (''['' @ [newline] @ indent j @ c # r) =
    (case read_value f (c # r) of
       None \<Rightarrow> None
     | Some (v, r2) \<Rightarrow> map_option (\<lambda>(vs, t). (JArr (v # vs), t)) (read_elems f r2))"
  using assms by (simp add: skip_ws_indent value_start_def)

lemma read_value_object:
  "read_value (Suc f) (''{'' @ [newline] @ indent j @ dquote # r) =
    map_option (\<lambda>(kvs, t). (JObj kvs, t)) (read_props f (dquote # r))"
  by (simp add: skip_ws_indent is_ws_def)

lemma read_elems_end: "read_elems (Suc f) ([newline] @ indent i @ '']'' @ s) = Some ([], s)"
  by (simp add: skip_ws_indent is_ws_def)

lemma read_elems_next:
  assumes "value_start c"
  shows "read_elems (Suc f) ('','' @ [newline] @ indent j @ c # r) =
    (case read_value f (c # r) of
       None \<Rightarrow> None
     | Some (v, r2) \<Rightarrow> map_option (\<lambda>(vs, t). (v # vs, t)) (read_elems f r2))"
  using assms by (simp add: skip_ws_indent skip_ws_start value_start_def is_ws_def)

lemma read_more_props_end:
  "read_more_props f k v ([newline] @ indent i @ ''}'' @ s) = Some ([(k, v)], s)"
  by (simp add: read_more_props_def skip_ws_indent is_ws_def)

lemma read_more_props_next:
  "read_more_props f k v ('','' @ [newline] @ indent j @ dquote # r) =
    map_option (\<lambda>(kvs, t). (obj_cons k v kvs, t)) (read_props f (dquote # r))"
  by (simp add: read_more_props_def skip_ws_indent skip_ws_start is_ws_def)

lemma read_props_step:
  assumes "value_start c"
  shows "read_props (Suc f) (json_quote k @ '': '' @ c # r) =
    (case read_value f (c # r) of
       None \<Rightarrow> None
     | Some (v, r3) \<Rightarrow> read_more_props f k v r3)"
proof -
  have "json_quote k @ '': '' @ c # r =
      dquote # concat (map quote_char k) @ dquote # '': '' @ c # r"
    by (simp add: json_quote_def)
  moreover have "skip_ws ('': '' @ c # r) = CHR '':'' # CHR '' '' # c # r"
    by (simp add: skip_ws_def is_ws_def)
  moreover have "skip_ws (CHR '' '' # c # r) = c # r"
    using assms by (simp add: skip_ws_space value_start_def)
  ultimately show ?thesis
    by (simp add: string_body_quoted read_more_props_def split: option.split)
qed

lemma num_end_elems_text: "num_end (elems_text i es @ s)"
  by (cases es) (simp_all add: num_end_def is_digit_iff)

lemma num_end_props_text: "num_end (props_text i kvs @ s)"
  by (cases kvs) (auto simp: num_end_def is_digit_iff)

lemma obj_cons_fresh:
  assumes "k \<notin> fst ` set kvs"
  shows "obj_cons k v kvs = (k, v) # kvs"
proof -
  from assms have "map_of kvs k = None"
    by (simp add: map_of_eq_None_iff)
  then show ?thesis by (simp add: obj_cons_def)
qed

lemma read_literal:
  "read_value (Suc f) (''null'' @ s) = Some (JNull, s)"
  "read_value (Suc f) (''true'' @ s) = Some (JBool True, s)"
  "read_value (Suc f) (''false'' @ s) = Some (JBool False, s)"
  by (simp_all add: is_digit_iff)

lemma read_value_string:
  "read_value (Suc f) (json_quote x @ s) = Some (JStr x, s)"
  by (simp add: json_quote_def string_body_quoted)

lemma read_value_number:
  assumes "decimal_number (Finite m d)" and "num_end s"
  shows "read_value (Suc f) (number_json (Finite m d) @ s) = Some (JNum (Finite m d), s)"
proof -
  from assms(1) have t: "number_json (Finite m d) = finite_text m d"
    by (simp add: number_json_def decimal_number_def num_norm_id)
  obtain c r where c: "finite_text m d = c # r" "c = CHR ''-'' \<or> is_digit c"
    using finite_text_start by blast
  have "read_number (finite_text m d @ s) = Some (Finite m d, s)"
    using assms by (rule read_number_text)
  with c have "read_value (Suc f) (finite_text m d @ s) = Some (JNum (Finite m d), s)"
    by (auto simp: is_digit_iff)
  with t show ?thesis by simp
qed

lemma json_text_start_append:
  "json_text i v @ u \<noteq> []" "value_start (hd (json_text i v @ u))"
  using json_text_start [of i v] by auto

lemma read_value_array_text:
  assumes "t \<noteq> []" and "value_start (hd t)"
  shows "read_value (Suc f) (''['' @ [newline] @ indent j @ t) =
    (case read_value f t of
       None \<Rightarrow> None
     | Some (v, r2) \<Rightarrow> map_option (\<lambda>(vs, t). (JArr (v # vs), t)) (read_elems f r2))"
  using assms read_value_array [of "hd t" f j "tl t"] by simp

lemma read_elems_next_text:
  assumes "t \<noteq> []" and "value_start (hd t)"
  shows "read_elems (Suc f) ('','' @ [newline] @ indent j @ t) =
    (case read_value f t of
       None \<Rightarrow> None
     | Some (v, r2) \<Rightarrow> map_option (\<lambda>(vs, t). (v # vs, t)) (read_elems f r2))"
  using assms read_elems_next [of "hd t" f j "tl t"] by simp

lemma read_props_step_text:
  assumes "t \<noteq> []" and "value_start (hd t)"
  shows "read_props (Suc f) (json_quote k @ '': '' @ t) =
    (case read_value f t of
       None \<Rightarrow> None
     | Some (v, r3) \<Rightarrow> read_more_props f k v r3)"
  using assms read_props_step [of "hd t" f k "tl t"] by simp

lemma read_value_object_text:
  "read_value (Suc f) (''{'' @ [newline] @ indent j @ json_quote k @ u) =
    map_option (\<lambda>(kvs, t). (JObj kvs, t)) (read_props f (json_quote k @ u))"
  using read_value_object [of f j "concat (map quote_char k) @ dquote # u"]
  by (simp add: json_quote_def)

lemma read_more_props_next_text:
  "read_more_props f k v ('','' @ [newline] @ indent j @ json_quote k' @ u) =
    map_option (\<lambda>(kvs, t). (obj_cons k v kvs, t)) (read_props f (json_quote k' @ u))"
  using read_more_props_next [of f k v j "concat (map quote_char k') @ dquote # u"]
  by (simp add: json_quote_def)

lemma read_property:
  assumes v: "read_value f (json_text j v @ u) = Some (v, u)"
  shows "read_props (Suc f) (json_quote k @ '': '' @ json_text j v @ u) = read_more_props f k v u"
proof -
  have "json_text j v @ u \<noteq> []" "value_start (hd (json_text j v @ u))"
    by (rule json_text_start_append)+
  then have "read_props (Suc f) (json_quote k @ '': '' @ json_text j v @ u) =
      (case read_value f (json_text j v @ u) of
         None \<Rightarrow> None
       | Some (v, r3) \<Rightarrow> read_more_props f k v r3)"
    by (rule read_props_step_text)
  with v show ?thesis by simp
qed

lemma read_value_leaf:
  "read_value (Suc f) (json_text i JNull @ s) = Some (JNull, s)"
  "read_value (Suc f) (json_text i (JBool b) @ s) = Some (JBool b, s)"
  "read_value (Suc f) (json_text i (JStr x) @ s) = Some (JStr x, s)"
  "read_value (Suc f) (json_text i (JArr []) @ s) = Some (JArr [], s)"
  "read_value (Suc f) (json_text i (JObj []) @ s) = Some (JObj [], s)"
proof -
  show "read_value (Suc f) (json_text i JNull @ s) = Some (JNull, s)"
    using read_literal(1) [of f s] by simp
  show "read_value (Suc f) (json_text i (JBool b) @ s) = Some (JBool b, s)"
    using read_literal(2,3) [of f s] by (cases b) simp_all
  show "read_value (Suc f) (json_text i (JStr x) @ s) = Some (JStr x, s)"
    using read_value_string [of f x s] by simp
  show "read_value (Suc f) (json_text i (JArr []) @ s) = Some (JArr [], s)"
    using read_value_empty_array [of f s] by simp
  show "read_value (Suc f) (json_text i (JObj []) @ s) = Some (JObj [], s)"
    using read_value_empty_object [of f s] by simp
qed

lemma json_text_length: "0 < length (json_text i v)"
  using json_text_start [of i v] by auto

lemma json_quote_length: "2 \<le> length (json_quote k)"
  by (simp add: json_quote_def)

lemma json_text_roundtrip_aux:
  "json_ok v \<Longrightarrow> length (json_text i v) \<le> f \<Longrightarrow> num_end s
     \<Longrightarrow> read_value f (json_text i v @ s) = Some (v, s)"
  "json_ok_list es \<Longrightarrow> length (elems_text i es) \<le> f
     \<Longrightarrow> read_elems f (elems_text i es @ s) = Some (es, s)"
  "json_ok_props kvs \<Longrightarrow> k \<notin> fst ` set kvs \<Longrightarrow> distinct (map fst kvs)
     \<Longrightarrow> length (props_text i kvs) \<le> f
     \<Longrightarrow> read_more_props f k w (props_text i kvs @ s) = Some ((k, w) # kvs, s)"
proof (induction i v and i es and i kvs arbitrary: f s and f s and f s k w
    rule: json_text_elems_text_props_text.induct)
  case (1 i)
  then obtain f' where "f = Suc f'"
    using json_text_length [of i JNull] by (cases f) simp_all
  then show ?case by (simp only: read_value_leaf)
next
  case (2 i b)
  then obtain f' where "f = Suc f'"
    using json_text_length [of i "JBool b"] by (cases f) simp_all
  then show ?case by (simp only: read_value_leaf)
next
  case (3 i x)
  then obtain m d where x: "x = Finite m d"
    by (cases x) (simp_all add: decimal_number_def)
  from 3(2) obtain f' where f: "f = Suc f'"
    using json_text_length [of i "JNum x"] by (cases f) simp_all
  have "read_value (Suc f') (number_json (Finite m d) @ s) = Some (JNum (Finite m d), s)"
    using 3(1,3) x by (intro read_value_number) simp_all
  with f x show ?case by simp
next
  case (4 i x)
  then obtain f' where "f = Suc f'"
    using json_text_length [of i "JStr x"] by (cases f) simp_all
  then show ?case by (simp only: read_value_leaf)
next
  case (5 i)
  then obtain f' where "f = Suc f'"
    using json_text_length [of i "JArr []"] by (cases f) simp_all
  then show ?case by (simp only: read_value_leaf)
next
  case (6 i e es)
  from "6.prems"(2) obtain f' where f: "f = Suc f'" by (cases f) simp_all
  with "6.prems"(2) have len: "length (json_text (Suc i) e) \<le> f'" "length (elems_text i es) \<le> f'"
    by simp_all
  from "6.prems"(1) have ok: "json_ok e" "json_ok_list es" by simp_all
  have e: "read_value f' (json_text (Suc i) e @ elems_text i es @ s) = Some (e, elems_text i es @ s)"
    using ok(1) len(1) num_end_elems_text by (rule "6.IH"(1))
  have es: "read_elems f' (elems_text i es @ s) = Some (es, s)"
    using ok(2) len(2) by (rule "6.IH"(2))
  have "read_value (Suc f') (''['' @ [newline] @ indent (Suc i) @ json_text (Suc i) e @ elems_text i es @ s)
      = Some (JArr (e # es), s)"
    by (subst read_value_array_text [OF json_text_start_append]) (simp add: e es)
  with f show ?case by simp
next
  case (7 i)
  then obtain f' where "f = Suc f'"
    using json_text_length [of i "JObj []"] by (cases f) simp_all
  then show ?case by (simp only: read_value_leaf)
next
  case (8 i k v kvs)
  from "8.prems"(1) have ok: "json_ok v" "json_ok_props kvs" "k \<notin> fst ` set kvs"
    "distinct (map fst kvs)" by simp_all
  from "8.prems"(2) obtain f' where f: "f = Suc f'" by (cases f) simp_all
  with "8.prems"(2) json_quote_length [of k] obtain f'' where f': "f' = Suc f''"
    by (cases f') simp_all
  with f "8.prems"(2) have len: "length (json_text (Suc i) v) \<le> f''" "length (props_text i kvs) \<le> f''"
    by simp_all
  have v: "read_value f'' (json_text (Suc i) v @ props_text i kvs @ s) = Some (v, props_text i kvs @ s)"
    using ok(1) len(1) num_end_props_text by (rule "8.IH"(1))
  have kvs: "read_more_props f'' k v (props_text i kvs @ s) = Some ((k, v) # kvs, s)"
    using ok(2,3,4) len(2) by (rule "8.IH"(2))
  have "read_value (Suc (Suc f''))
      (''{'' @ [newline] @ indent (Suc i) @ json_quote k @ '': '' @ json_text (Suc i) v @ props_text i kvs @ s)
      = Some (JObj ((k, v) # kvs), s)"
    by (subst read_value_object_text) (simp only: read_property [OF v] kvs, simp)
  with f f' show ?case by simp
next
  case (9 i)
  then obtain f' where "f = Suc f'" by (cases f) simp_all
  then show ?case using read_elems_end [of f' i s] by simp
next
  case (10 i e es)
  from "10.prems"(2) obtain f' where f: "f = Suc f'" by (cases f) simp_all
  with "10.prems"(2) have len: "length (json_text (Suc i) e) \<le> f'" "length (elems_text i es) \<le> f'"
    by simp_all
  from "10.prems"(1) have ok: "json_ok e" "json_ok_list es" by simp_all
  have e: "read_value f' (json_text (Suc i) e @ elems_text i es @ s) = Some (e, elems_text i es @ s)"
    using ok(1) len(1) num_end_elems_text by (rule "10.IH"(1))
  have es: "read_elems f' (elems_text i es @ s) = Some (es, s)"
    using ok(2) len(2) by (rule "10.IH"(2))
  have "read_elems (Suc f') ('','' @ [newline] @ indent (Suc i) @ json_text (Suc i) e @ elems_text i es @ s)
      = Some (e # es, s)"
    by (subst read_elems_next_text [OF json_text_start_append]) (simp add: e es)
  with f show ?case by simp
next
  case (11 i)
  show ?case using read_more_props_end [of f k w i s] by simp
next
  case (12 i k' v kvs)
  from "12.prems"(1,2,3) have ok: "json_ok v" "json_ok_props kvs" "k' \<notin> fst ` set kvs"
    "distinct (map fst kvs)" "k \<notin> fst ` set ((k', v) # kvs)" by simp_all
  from "12.prems"(4) obtain f' where f: "f = Suc f'" by (cases f) simp_all
  with "12.prems"(4) have len: "length (json_text (Suc i) v) \<le> f'" "length (props_text i kvs) \<le> f'"
    by simp_all
  have v: "read_value f' (json_text (Suc i) v @ props_text i kvs @ s) = Some (v, props_text i kvs @ s)"
    using ok(1) len(1) num_end_props_text by (rule "12.IH"(1))
  have kvs: "read_more_props f' k' v (props_text i kvs @ s) = Some ((k', v) # kvs, s)"
    using ok(2,3,4) len(2) by (rule "12.IH"(2))
  have "read_more_props (Suc f') k w
      ('','' @ [newline] @ indent (Suc i) @ json_quote k' @ '': '' @ json_text (Suc i) v @ props_text i kvs @ s)
      = Some ((k, w) # (k', v) # kvs, s)"
    by (subst read_more_props_next_text)
       (simp only: read_property [OF v] kvs, simp add: obj_cons_fresh [OF ok(5)])
  with f show ?case by simp
qed

lemma JSON_parse_stringify2:
  assumes "json_ok v"
  shows "JSON_parse (JSON_stringify2 v) = Some v"
proof -
  obtain c r where c: "json_text 0 v = c # r" "value_start c"
    using json_text_start by blast
  then have "skip_ws (json_text 0 v) = json_text 0 v"
    by (simp add: skip_ws_start value_start_def)
  moreover have "read_value (length (json_text 0 v)) (json_text 0 v @ []) = Some (v, [])"
    using assms by (intro json_text_roundtrip_aux(1)) (simp_all add: num_end_def)
  ultimately show ?thesis
    by (simp add: JSON_parse_def JSON_stringify2_def skip_ws_def)
qed

lemma json_ok_list_map: "list_all (\<lambda>x. json_ok (g x)) xs \<Longrightarrow> json_ok_list (map g xs)"
  by (induction xs) simp_all

lemma json_ok_Set: "decimal_Set s \<Longrightarrow> json_ok (json_of_Set s)"
  by (simp add: json_of_Set_def decimal_Set_def)

lemma json_ok_ExerciseSession:
  assumes "list_all decimal_Set (es_sets s)"
  shows "json_ok (json_of_ExerciseSession s)"
proof -
  have "list_all (\<lambda>x. json_ok (json_of_Set x)) (es_sets s)"
    using assms by (simp add: list_all_iff json_ok_Set)
  then have "json_ok_list (map json_of_Set (es_sets s))"
    by (rule json_ok_list_map)
  then show ?thesis
    by (cases "es_note s") (simp_all add: json_of_ExerciseSession_def opt_field_def)
qed

lemma json_ok_Exercise:
  assumes "list_all (\<lambda>s. list_all decimal_Set (es_sets s)) (ex_sessions e)"
  shows "json_ok (json_of_Exercise e)"
proof -
  have "list_all (\<lambda>x. json_ok (json_of_ExerciseSession x)) (ex_sessions e)"
    using assms by (simp add: list_all_iff json_ok_ExerciseSession)
  then have "json_ok_list (map json_of_ExerciseSession (ex_sessions e))"
    by (rule json_ok_list_map)
  then show ?thesis
    by (simp add: json_of_Exercise_def)
qed

lemma json_ok_WorkoutSession: "json_ok (json_of_WorkoutSession w)"
proof -
  have "json_ok_list (map JStr (ws_exerciseIds w))"
    by (rule json_ok_list_map) (simp add: list_all_iff)
  then show ?thesis
    by (cases "ws_endTime w"; cases "ws_isDwarfWorkout w")
      (simp_all add: json_of_WorkoutSession_def opt_field_def)
qed

lemma json_ok_WorkoutData:
  assumes "decimal_numbers d"
  shows "json_ok (json_of_WorkoutData d)"
proof -
  have "list_all (\<lambda>x. json_ok (json_of_Exercise x)) (exercises d)"
    using assms by (simp add: decimal_numbers_def list_all_iff json_ok_Exercise)
  then have "json_ok_list (map json_of_Exercise (exercises d))"
    by (rule json_ok_list_map)
  moreover have "json_ok_list (map json_of_WorkoutSession (workoutSessions d))"
    by (rule json_ok_list_map) (simp add: list_all_iff json_ok_WorkoutSession)
  ultimately show ?thesis
    by (simp add: json_of_WorkoutData_def)
qed

lemma JSON_parse_export:
  assumes "decimal_numbers d"
  shows "JSON_parse (exportData JSON_stringify2 d) = Some (json_of_WorkoutData d)"
  unfolding exportData_def using assms by (intro JSON_parse_stringify2 json_ok_WorkoutData)

subsection \<open>Export followed by import\<close>

text \<open>
  C7, as amended. The claim is made for every valid snapshot, and a set is valid with
  any weight that is a number \<open>\<ge> 0\<close>. It holds for the snapshots whose \<open>reps\<close> and
  \<open>weight\<close> are finite and not \<open>-0\<close>: importing the text that export produces, with
  \<open>JSON.stringify(data, null, 2)\<close> and \<open>JSON.parse\<close> as the runtime defines them,
  returns the value of the snapshot itself, which reads as a snapshot with the same
  exercises and the same workout sessions in the same order. And for every text,
  import returns none exactly when the text does not parse or its parse result is
  not an object with an array-valued \<open>exercises\<close> field. It fails for a snapshot with
  an infinite weight, which is exported as \<open>null\<close>.
\<close>

theorem import_export_roundtrip:
  "(decimal_numbers d \<longrightarrow>
      importData JSON_parse (exportData JSON_stringify2 d) = Some (json_of_WorkoutData d)
      \<and> (\<exists>d'. as_WorkoutData (json_of_WorkoutData d) = Some d'
            \<and> exercises d' = exercises d \<and> workoutSessions d' = workoutSessions d))
   \<and> (\<forall>text. importData JSON_parse text = None \<longleftrightarrow>
         JSON_parse text = None
         \<or> (\<exists>v. JSON_parse text = Some v
              \<and> \<not> (\<exists>kvs xs. v = JObj kvs \<and> map_of kvs ''exercises'' = Some (JArr xs))))"
proof (intro conjI impI allI)
  assume "decimal_numbers d"
  then have "JSON_parse (exportData JSON_stringify2 d) = Some (json_of_WorkoutData d)"
    by (rule JSON_parse_export)
  then show "importData JSON_parse (exportData JSON_stringify2 d) = Some (json_of_WorkoutData d)"
    by (rule importData_Some) (simp_all add: json_of_WorkoutData_def)
next
  show "\<exists>d'. as_WorkoutData (json_of_WorkoutData d) = Some d'
      \<and> exercises d' = exercises d \<and> workoutSessions d' = workoutSessions d"
    using as_WorkoutData_inverse by blast
next
  fix input :: string
  show "importData JSON_parse input = None \<longleftrightarrow>
         JSON_parse input = None
         \<or> (\<exists>v. JSON_parse input = Some v
              \<and> \<not> (\<exists>kvs xs. v = JObj kvs \<and> map_of kvs ''exercises'' = Some (JArr xs)))"
    by (rule importData_None_iff)
qed

theorem import_export_roundtrip_witness:
  "exportData JSON_stringify2 small_data = small_data_text
   \<and> importData JSON_parse small_data_text = Some (json_of_WorkoutData small_data)
   \<and> (\<exists>d'. as_WorkoutData (json_of_WorkoutData small_data) = Some d'
         \<and> exercises d' = [demo_exB] \<and> workoutSessions d' = [demo_w1])
   \<and> JSON_parse ''not json'' = None
   \<and> importData JSON_parse ''not json'' = None"
proof -
  have dn: "decimal_numbers small_data"
    by code_simp
  have ex: "exportData JSON_stringify2 small_data = small_data_text"
    by code_simp
  have np: "JSON_parse ''not json'' = None"
    by code_simp
  note T = import_export_roundtrip [of small_data]
  from T [THEN conjunct1] dn
  have "importData JSON_parse (exportData JSON_stringify2 small_data) =
      Some (json_of_WorkoutData small_data)
      \<and> (\<exists>d'. as_WorkoutData (json_of_WorkoutData small_data) = Some d'
            \<and> exercises d' = exercises small_data
            \<and> workoutSessions d' = workoutSessions small_data)"
    by (rule mp)
  then have a: "importData JSON_parse (exportData JSON_stringify2 small_data) =
      Some (json_of_WorkoutData small_data)"
    and b: "\<exists>d'. as_WorkoutData (json_of_WorkoutData small_data) = Some d'
            \<and> exercises d' = exercises small_data
            \<and> workoutSessions d' = workoutSessions small_data"
    by (rule conjunct1, rule conjunct2)
  from a have 1: "importData JSON_parse small_data_text = Some (json_of_WorkoutData small_data)"
    by (simp only: ex)
  from b have 2: "\<exists>d'. as_WorkoutData (json_of_WorkoutData small_data) = Some d'
         \<and> exercises d' = [demo_exB] \<and> workoutSessions d' = [demo_w1]"
    by (simp add: small_data_def)
  from T [THEN conjunct2] np have 3: "importData JSON_parse ''not json'' = None"
    by blast
  from ex 1 2 np 3 show ?thesis
    by (intro conjI)
qed

text \<open>
  The claim as it stands fails at \<open>infinity_data\<close>, whose one set has 10 reps and the
  weight \<open>Infinity\<close>: the exported text has \<open>"weight": null\<close>, so import returns a value
  that is not the value of the snapshot and does not read as a snapshot at all.
\<close>

theorem import_export_infinity_counterexample:
  "importData JSON_parse (exportData JSON_stringify2 infinity_data) = Some infinity_read
   \<and> infinity_read \<noteq> json_of_WorkoutData infinity_data
   \<and> as_WorkoutData infinity_read = None
   \<and> \<not> decimal_numbers infinity_data"
proof -
  have "exportData JSON_stringify2 infinity_data = JSON_stringify2 infinity_read"
    by code_simp
  moreover have "json_ok infinity_read"
    by code_simp
  ultimately have "JSON_parse (exportData JSON_stringify2 infinity_data) = Some infinity_read"
    by (simp add: JSON_parse_stringify2)
  then have 1: "importData JSON_parse (exportData JSON_stringify2 infinity_data) = Some infinity_read"
    by (rule importData_Some) (simp_all add: infinity_read_def)
  have 2: "infinity_read \<noteq> json_of_WorkoutData infinity_data"
    by code_simp
  have 3: "as_WorkoutData infinity_read = None"
    by code_simp
  have 4: "\<not> decimal_numbers infinity_data"
    by code_simp
  from 1 2 3 4 show ?thesis
    by (intro conjI)
qed

subsection \<open>Import does not establish the data model\<close>

lemma session_dates_js_typed:
  "session_dates_js (map json_of_ExerciseSession ss) acc =
     Inr (fold (\<lambda>session acc'. set_add (date_part (es_date session)) acc') ss acc)"
  by (induction ss arbitrary: acc)
    (simp_all add: json_of_ExerciseSession_def js_date_part_def)

lemma exercise_dates_js_typed:
  "exercise_dates_js (map json_of_Exercise es) acc =
     Inr (fold (\<lambda>exercise acc.
                  fold (\<lambda>session acc'. set_add (date_part (es_date session)) acc')
                       (ex_sessions exercise) acc) es acc)"
proof (induction es arbitrary: acc)
  case Nil
  then show ?case by simp
next
  case (Cons e es)
  have "js_get (json_of_Exercise e) ''sessions'' =
      Inr (Some (JArr (map json_of_ExerciseSession (ex_sessions e))))"
    by (simp add: json_of_Exercise_def)
  then show ?case
    by (simp add: Cons.IH js_iter_def session_dates_js_typed)
qed

lemma js_get_WorkoutSession:
  "js_get (json_of_WorkoutSession w) ''isDwarfWorkout'' = Inr (map_option JBool (ws_isDwarfWorkout w))"
  "js_get (json_of_WorkoutSession w) ''endTime'' = Inr (map_option JStr (ws_endTime w))"
  "js_get (json_of_WorkoutSession w) ''startTime'' = Inr (Some (JStr (ws_startTime w)))"
  by (cases "ws_endTime w"; cases "ws_isDwarfWorkout w";
      simp add: json_of_WorkoutSession_def opt_field_def)+

lemma js_truthy_opt_typed:
  "js_truthy_opt (map_option JBool b) = truthy_bool b"
  "js_truthy_opt (map_option JStr s) = truthy_str s"
  by (cases b; simp add: js_truthy_opt_def truthy_bool_def)
    (cases s; simp add: js_truthy_opt_def truthy_str_def)

lemma dwarf_dates_js_typed:
  "dwarf_dates_js (map json_of_WorkoutSession ws) acc =
     Inr (fold (\<lambda>session acc.
                  if truthy_bool (ws_isDwarfWorkout session) \<and> truthy_str (ws_endTime session)
                  then set_add (date_part (ws_startTime session)) acc else acc) ws acc)"
  by (induction ws arbitrary: acc)
    (simp_all add: js_get_WorkoutSession js_truthy_opt_typed js_date_part_def)

text \<open>On a value that is a snapshot the unchecked function is the typed one.\<close>

lemma getUniqueWorkoutDates_js_typed:
  "getUniqueWorkoutDates_js (json_of_WorkoutData d) = Inr (getUniqueWorkoutDates d)"
  by (simp add: getUniqueWorkoutDates_js_def getUniqueWorkoutDates_def json_of_WorkoutData_def
      js_iter_def exercise_dates_js_typed dwarf_dates_js_typed Let_def)

lemma js_truthy_WorkoutSession: "js_truthy (json_of_WorkoutSession w)"
  by (simp add: json_of_WorkoutSession_def)

lemma find_active_js_typed:
  "find_active_js (map json_of_WorkoutSession ws) =
     Inr (map_option json_of_WorkoutSession (find (\<lambda>s. \<not> truthy_str (ws_endTime s)) ws))"
  by (induction ws)
    (simp_all add: js_get_WorkoutSession js_truthy_opt_typed js_truthy_WorkoutSession)

lemma getActiveWorkoutSession_js_typed:
  "getActiveWorkoutSession_js (json_of_WorkoutData d) =
     Inr (map_option json_of_WorkoutSession (getActiveWorkoutSession d))"
  by (simp add: getActiveWorkoutSession_js_def getActiveWorkoutSession_def
      json_of_WorkoutData_def find_active_js_typed)

text \<open>
  C10. A text that parses to an object with an array-valued \<open>exercises\<close> field and no
  \<open>workoutSessions\<close> field is accepted by import; the value returned has no
  \<open>workoutSessions\<close>, does not read as a snapshot, and both \<open>getUniqueWorkoutDates\<close> and
  \<open>getActiveWorkoutSession\<close> raise a \<open>TypeError\<close> on it.
\<close>

theorem importData_accepts_non_snapshot:
  assumes "parse input = Some (JObj [(''exercises'', JArr [])])"
  shows "importData parse input = Some (JObj [(''exercises'', JArr [])])
    \<and> js_get (JObj [(''exercises'', JArr [])]) ''workoutSessions'' = Inr None
    \<and> as_WorkoutData (JObj [(''exercises'', JArr [])]) = None
    \<and> getUniqueWorkoutDates_js (JObj [(''exercises'', JArr [])]) = Inl TypeError
    \<and> getActiveWorkoutSession_js (JObj [(''exercises'', JArr [])]) = Inl TypeError"
  using assms
  by (simp add: importData_def as_WorkoutData_def as_list_def getUniqueWorkoutDates_js_def
      getActiveWorkoutSession_js_def js_iter_def)

theorem importData_accepts_non_snapshot_witness:
  "JSON_parse exercises_only_text = Some (JObj [(''exercises'', JArr [])])
   \<and> importData JSON_parse exercises_only_text = Some (JObj [(''exercises'', JArr [])])
   \<and> getUniqueWorkoutDates_js (JObj [(''exercises'', JArr [])]) = Inl TypeError"
proof -
  have h: "JSON_parse exercises_only_text = Some (JObj [(''exercises'', JArr [])])"
    by code_simp
  from importData_accepts_non_snapshot [of JSON_parse exercises_only_text, OF h] h show ?thesis
    by blast
qed

end
